theory Spec2Isabelle
  imports Main "HOL-Library.Word"
begin

unbundle bit_operations_syntax

section \<open>Node.js Buffers over an explicit store\<close>

text \<open>
  The frame codec (\<^verbatim>\<open>Packet\<close>, packet.ts) works on Node.js \<^verbatim>\<open>Buffer\<close> objects and
  mutates them in place: \<^verbatim>\<open>Packet.frame\<close> XORs the mask key into the caller's payload,
  the \<^verbatim>\<open>Packet\<close> constructor unmasks inside the buffer it was given, and
  \<^verbatim>\<open>buffer.slice\<close> returns a view that shares memory with its parent. Buffers are
  therefore modelled as views into an explicit store: \<open>mem h a\<close> is the contents of the
  ArrayBuffer with identity \<open>a\<close>, and \<open>fresh h\<close> is the next unused identity.

  Strings are lists of \<open>char\<close>, read as the UTF-8 code units of the JavaScript string,
  so that \<^verbatim>\<open>Buffer.byteLength(s)\<close> is \<open>length s\<close>.
\<close>

type_synonym byte = "8 word"

record heap =
  mem :: "nat \<Rightarrow> nat \<Rightarrow> byte"
  fresh :: nat

record buffer =
  base :: nat
  byteOffset :: nat
  len :: nat

text \<open>
  The exceptions of the source: \<^verbatim>\<open>new Error(message)\<close>, and the \<^verbatim>\<open>RangeError\<close> and
  \<^verbatim>\<open>TypeError\<close> that the Buffer functions raise on a value out of range or of the
  wrong type.
\<close>

datatype error = Error string | RangeError | TypeError

text \<open>
  \<^verbatim>\<open>buf[i]\<close>. Out of range JavaScript reads \<^verbatim>\<open>undefined\<close>; every read of the source
  feeds a bitwise operator, where \<^verbatim>\<open>undefined\<close> counts as 0.
\<close>

definition buf_get :: "heap \<Rightarrow> buffer \<Rightarrow> nat \<Rightarrow> byte" where
  "buf_get h b i = (if i < len b then mem h (base b) (byteOffset b + i) else 0)"

text \<open>\<^verbatim>\<open>buf[i] = v\<close>. A write out of range is ignored, as a typed array does.\<close>

definition buf_set :: "heap \<Rightarrow> buffer \<Rightarrow> nat \<Rightarrow> byte \<Rightarrow> heap" where
  "buf_set h b i v =
     (if i < len b
      then h\<lparr>mem := (mem h)(base b := (mem h (base b))(byteOffset b + i := v))\<rparr>
      else h)"

definition buf_bytes :: "heap \<Rightarrow> buffer \<Rightarrow> byte list" where
  "buf_bytes h b = map (buf_get h b) [0..<len b]"

text \<open>\<^verbatim>\<open>buf.slice(start, stop)\<close>: a view on the same memory, clamped to the buffer.\<close>

definition buf_slice :: "buffer \<Rightarrow> nat \<Rightarrow> nat \<Rightarrow> buffer" where
  "buf_slice b start stop =
     \<lparr>base = base b,
      byteOffset = byteOffset b + min start (len b),
      len = min stop (len b) - min start (len b)\<rparr>"

text \<open>\<^verbatim>\<open>Buffer.alloc(n)\<close>: new zero-filled memory.\<close>

definition alloc :: "heap \<Rightarrow> nat \<Rightarrow> heap \<times> buffer" where
  "alloc h n =
     (h\<lparr>mem := (mem h)(fresh h := (\<lambda>_. 0)), fresh := Suc (fresh h)\<rparr>,
      \<lparr>base = fresh h, byteOffset = 0, len = n\<rparr>)"

text \<open>\<^verbatim>\<open>Buffer.allocUnsafe(n)\<close>: new memory, whatever it holds.\<close>

definition allocUnsafe :: "heap \<Rightarrow> nat \<Rightarrow> heap \<times> buffer" where
  "allocUnsafe h n =
     (h\<lparr>fresh := Suc (fresh h)\<rparr>, \<lparr>base = fresh h, byteOffset = 0, len = n\<rparr>)"

text \<open>
  \<^verbatim>\<open>dest.set(src, off)\<close> and the copies inside \<^verbatim>\<open>Buffer.concat\<close>, \<^verbatim>\<open>Buffer.from\<close> and
  \<^verbatim>\<open>buf.write\<close>: the bytes \<open>xs\<close> go to the indices from \<open>off\<close>; the part that does not
  fit is left out.
\<close>

definition buf_copy :: "heap \<Rightarrow> buffer \<Rightarrow> nat \<Rightarrow> byte list \<Rightarrow> heap" where
  "buf_copy h b off xs =
     h\<lparr>mem := (mem h)(base b :=
         (\<lambda>i. if byteOffset b + off \<le> i \<and> i < byteOffset b + off + length xs
                  \<and> i < byteOffset b + len b
               then xs ! (i - (byteOffset b + off))
               else mem h (base b) i))\<rparr>"

text \<open>\<^verbatim>\<open>Buffer.from(string)\<close>: a new buffer holding the bytes of the string.\<close>

definition buf_from :: "heap \<Rightarrow> byte list \<Rightarrow> heap \<times> buffer" where
  "buf_from h xs = (let (h', b) = allocUnsafe h (length xs) in (buf_copy h' b 0 xs, b))"

text \<open>
  \<^verbatim>\<open>Buffer.concat(list, total_len)\<close>: a new buffer of \<open>total_len\<close> bytes holding the contents of
  the listed buffers one after the other, cut at \<open>total_len\<close> and zero-filled behind them.
\<close>

definition buf_concat :: "heap \<Rightarrow> buffer list \<Rightarrow> nat \<Rightarrow> heap \<times> buffer" where
  "buf_concat h bs total_len =
     (let (h', out) = alloc h total_len
      in (buf_copy h' out 0 (concat (map (buf_bytes h) bs)), out))"

text \<open>
  The big-endian accessors. Node raises a \<^verbatim>\<open>RangeError\<close> when the value does not fit
  the width or the offset leaves the buffer.
\<close>

definition writeUInt16BE :: "heap \<Rightarrow> buffer \<Rightarrow> nat \<Rightarrow> nat \<Rightarrow> error + heap" where
  "writeUInt16BE h b v off =
     (if 65535 < v \<or> len b < off + 2 then Inl RangeError
      else Inr (buf_set (buf_set h b off (of_nat (v div 256))) b (off + 1) (of_nat v)))"

definition writeUInt32BE :: "heap \<Rightarrow> buffer \<Rightarrow> nat \<Rightarrow> nat \<Rightarrow> error + heap" where
  "writeUInt32BE h b v off =
     (if 4294967295 < v \<or> len b < off + 4 then Inl RangeError
      else Inr (buf_set (buf_set (buf_set (buf_set h b off (of_nat (v div 16777216)))
                  b (off + 1) (of_nat (v div 65536)))
                  b (off + 2) (of_nat (v div 256)))
                  b (off + 3) (of_nat v)))"

definition readUInt16BE :: "heap \<Rightarrow> buffer \<Rightarrow> nat \<Rightarrow> error + nat" where
  "readUInt16BE h b off =
     (if len b < off + 2 then Inl RangeError
      else Inr (unat (buf_get h b off) * 256 + unat (buf_get h b (off + 1))))"

definition readUInt32BE :: "heap \<Rightarrow> buffer \<Rightarrow> nat \<Rightarrow> error + nat" where
  "readUInt32BE h b off =
     (if len b < off + 4 then Inl RangeError
      else Inr (unat (buf_get h b off) * 16777216 + unat (buf_get h b (off + 1)) * 65536
                + unat (buf_get h b (off + 2)) * 256 + unat (buf_get h b (off + 3))))"

section \<open>Encoding: \<^verbatim>\<open>Packet.frame\<close>\<close>

text \<open>
  \<^verbatim>\<open>Math.floor(Math.random() * 256)\<close> is one byte; \<open>rnd idx\<close> is the byte drawn in
  iteration \<open>idx\<close> of the key loop of one call. Buffer lengths are exact integers, far
  below \<open>2 ^ 53\<close>, so \<^verbatim>\<open>Math.floor(size / Math.pow(2, 32))\<close> is \<open>sz div 2 ^ 32\<close>.
\<close>

text \<open>packet.ts, the length field: \<^verbatim>\<open>let offset = 2; if(size < 126) ... else ...\<close>.\<close>

definition frame_write_length :: "heap \<Rightarrow> buffer \<Rightarrow> nat \<Rightarrow> error + heap \<times> nat" where
  "frame_write_length h dest sz =
     (if sz < 126 then
        Inr (buf_set h dest 1 (buf_get h dest 1 + of_nat sz), 2)
      else if sz < 65536 then
        (let h1 = buf_set h dest 1 (buf_get h dest 1 + 126)
         in case writeUInt16BE h1 dest sz 2 of
              Inl e \<Rightarrow> Inl e
            | Inr h2 \<Rightarrow> Inr (h2, 2 + 2))
      else
        (let h1 = buf_set h dest 1 (buf_get h dest 1 + 127)
         in case writeUInt32BE h1 dest (sz div 2 ^ 32) 2 of
              Inl e \<Rightarrow> Inl e
            | Inr h2 \<Rightarrow>
                (case writeUInt32BE h2 dest (sz mod 2 ^ 32) 6 of
                   Inl e \<Rightarrow> Inl e
                 | Inr h3 \<Rightarrow> Inr (h3, 2 + 8))))"

text \<open>
  packet.ts, \<^verbatim>\<open>if(mask) { ... }\<close>: a new 4-byte key is drawn and written behind the
  length, and the payload is XORed with it where it lies, in the caller's buffer.
\<close>

definition frame_apply_mask ::
  "(nat \<Rightarrow> byte) \<Rightarrow> heap \<Rightarrow> buffer \<Rightarrow> buffer \<Rightarrow> nat \<Rightarrow> nat \<Rightarrow> heap \<times> nat" where
  "frame_apply_mask rnd h dest payload offset sz =
     (let (h1, mask_key) = alloc h 4;
          h2 = foldl (\<lambda>hh idx. buf_set (buf_set hh mask_key idx (rnd idx))
                                  dest (offset + idx) (rnd idx)) h1 [0..<4];
          h3 = foldl (\<lambda>hh idx. buf_set hh payload idx
                                  (buf_get hh payload idx XOR buf_get hh mask_key (idx mod 4)))
                     h2 [0..<sz]
      in (h3, offset + 4))"

text \<open>
  \<^verbatim>\<open>static frame(opcode, payload, fin?, rsv1?, mask?)\<close>. The store written into
  \<^verbatim>\<open>dest[0]\<close> keeps the low 8 bits of the sum. \<open>rsv1\<close> is a parameter the body
  never reads.
\<close>

definition frame ::
  "(nat \<Rightarrow> byte) \<Rightarrow> heap \<Rightarrow> nat \<Rightarrow> buffer \<Rightarrow> bool \<Rightarrow> bool \<Rightarrow> bool \<Rightarrow> error + heap \<times> buffer" where
  "frame rnd h opcode payload fin rsv1 mask_arg =
     (let sz = len payload;
          (h1, dest) = alloc h (2 + (if sz < 126 then 0 else if sz < 65536 then 2 else 8)
                                  + (if mask_arg then 4 else 0));
          h2 = buf_set h1 dest 0 (of_nat ((if fin then 128 else 0) + opcode));
          h3 = buf_set h2 dest 1 (if mask_arg then 128 else 0)
      in case frame_write_length h3 dest sz of
           Inl e \<Rightarrow> Inl e
         | Inr (h4, offset) \<Rightarrow>
             (let (h5, offset') =
                    (if mask_arg then frame_apply_mask rnd h4 dest payload offset sz
                     else (h4, offset))
              in Inr (buf_concat h5 [dest, payload] (len dest + sz))))"

section \<open>Decoding: the \<^verbatim>\<open>Packet\<close> constructor\<close>

datatype parse_state =
  GET_HEADER | GET_PAYLOAD_LENGTH_16 | GET_PAYLOAD_LENGTH_64 | GET_MASK_KEY | GET_PAYLOAD
  | COMPLETE

text \<open>
  The fields of a \<^verbatim>\<open>Packet\<close>. A field declared with \<^verbatim>\<open>?\<close> is \<open>None\<close> until the
  constructor assigns it. \<open>state_p\<close>, \<open>size_p\<close> and \<open>mask_p\<close> are the fields
  \<^verbatim>\<open>state\<close>, \<^verbatim>\<open>size\<close> and \<^verbatim>\<open>mask\<close>.
\<close>

record packet =
  state_p :: parse_state
  data :: buffer
  size_p :: int
  fin :: "bool option"
  rsv1 :: "bool option"
  opcode :: "nat option"
  mask_p :: "bool option"
  payload :: "buffer option"
  payload_length :: "nat option"
  mask_key :: "buffer option"
  close_code :: "nat option"

text \<open>
  The \<^verbatim>\<open>do { ... } while(n > 0)\<close> loop of \<^verbatim>\<open>consume\<close>. Its body never changes
  \<^verbatim>\<open>n\<close>, so for \<open>0 < n\<close> it does not return: the value is \<open>None\<close> there.
\<close>

partial_function (option) consume_loop ::
  "heap \<Rightarrow> packet \<Rightarrow> buffer \<Rightarrow> nat \<Rightarrow> (heap \<times> packet \<times> buffer) option" where
  "consume_loop h p dest n =
     (let buf = data p;
          offset = len dest - n;
          (h', p') =
             (if len buf \<le> n then (buf_copy h dest offset (buf_bytes h (data p)), p)
              else (buf_copy h dest offset (take n (buf_bytes h buf)),
                    p\<lparr>data := buf_slice buf n (len buf)\<rparr>))
      in if 0 < n then consume_loop h' p' dest n else Some (h', p', dest))"

text \<open>\<^verbatim>\<open>private consume(n)\<close>: the next \<open>n\<close> bytes of \<^verbatim>\<open>this.data\<close>, as a view.\<close>

definition consume :: "heap \<Rightarrow> packet \<Rightarrow> nat \<Rightarrow> (heap \<times> packet \<times> buffer) option" where
  "consume h p n =
     (let p1 = p\<lparr>size_p := size_p p - int n\<rparr>
      in if n = len (data p1) then Some (h, p1, data p1)
         else if n < len (data p1) then
           (let buf = data p1
            in Some (h, p1\<lparr>data := buf_slice buf n (len buf)\<rparr>, buf_slice buf 0 n))
         else (let (h', dest) = allocUnsafe h n in consume_loop h' p1 dest n))"

text \<open>
  The constructor is one sequence of blocks, each guarded by \<^verbatim>\<open>this.state\<close>; a
  \<^verbatim>\<open>return\<close> inside a block leaves the packet as it is then. The blocks are written
  last first, each continuing with the next one. A result \<open>Some (h, Inr p)\<close> is the
  constructed packet, \<open>Some (h, Inl e)\<close> is the exception \<open>e\<close>, both with the store as
  the constructor left it; \<open>None\<close> is a call that does not return.

  Last block, \<^verbatim>\<open>if(this.state === Packet.GET_PAYLOAD) { ... }\<close>. A read of
  \<^verbatim>\<open>this.payload_length\<close> while it is undefined would compare as false and then fail
  in \<^verbatim>\<open>Buffer.allocUnsafe(undefined)\<close>.
\<close>

definition Packet_get_payload :: "heap \<Rightarrow> packet \<Rightarrow> (heap \<times> (error + packet)) option" where
  "Packet_get_payload h p =
     (if state_p p = GET_PAYLOAD then
        (if payload_length p = Some 0 then
           (let (h1, b) = allocUnsafe h 0
            in Some (h1, Inr (p\<lparr>payload := Some b, state_p := COMPLETE\<rparr>)))
         else
           (case payload_length p of
              None \<Rightarrow> Some (h, Inl TypeError)
            | Some n \<Rightarrow>
                if size_p p < int n then Some (h, Inr p)
                else
                  (case consume h p n of
                     None \<Rightarrow> None
                   | Some (h1, p1, b) \<Rightarrow>
                       (let p2 = p1\<lparr>payload := Some b\<rparr>;
                            h2 = (case mask_key p2 of
                                    None \<Rightarrow> h1
                                  | Some k \<Rightarrow>
                                      if mask_p p2 = Some True \<and>
                                         (buf_get h1 k 0 OR buf_get h1 k 1 OR buf_get h1 k 2
                                            OR buf_get h1 k 3) \<noteq> 0
                                      then foldl (\<lambda>hh idx. buf_set hh b idx
                                                    (buf_get hh b idx XOR buf_get hh k (idx AND 3)))
                                             h1 [0..<len b]
                                      else h1)
                        in if opcode p2 = Some 8 then
                             (if payload_length p2 = Some 1 then
                                Some (h2, Inl (Error ''close frame length is not valid.''))
                              else if 2 \<le> n then
                                (case readUInt16BE h2 b 0 of
                                   Inl e \<Rightarrow> Some (h2, Inl e)
                                 | Inr c \<Rightarrow>
                                     Some (h2, Inr (p2\<lparr>close_code := Some c,
                                                       payload := Some (buf_slice b 2 (len b)),
                                                       state_p := COMPLETE\<rparr>)))
                              else Some (h2, Inr (p2\<lparr>state_p := COMPLETE\<rparr>)))
                           else Some (h2, Inr (p2\<lparr>state_p := COMPLETE\<rparr>))))))
      else Some (h, Inr p))"

text \<open>\<^verbatim>\<open>if(this.state === Packet.GET_MASK_KEY) { ... }\<close>\<close>

definition Packet_get_mask_key :: "heap \<Rightarrow> packet \<Rightarrow> (heap \<times> (error + packet)) option" where
  "Packet_get_mask_key h p =
     (if state_p p = GET_MASK_KEY then
        (if mask_p p = Some True then
           (if size_p p < 4 then Some (h, Inr p)
            else
              (case consume h p 4 of
                 None \<Rightarrow> None
               | Some (h1, p1, b) \<Rightarrow>
                   Packet_get_payload h1 (p1\<lparr>mask_key := Some b, state_p := GET_PAYLOAD\<rparr>)))
         else Packet_get_payload h (p\<lparr>state_p := GET_PAYLOAD\<rparr>))
      else Packet_get_payload h p)"

text \<open>
  \<^verbatim>\<open>if(this.state === Packet.GET_PAYLOAD_LENGTH_16) { ... } else if(this.state ===
  Packet.GET_PAYLOAD_LENGTH_64) { ... }\<close>. The 64-bit length is a sum of doubles:
  \<^verbatim>\<open>readUInt32BE(0) * Math.pow(2, 32)\<close> is exact, and the sum is rounded to 53
  significant bits, a tie going to the even neighbour. \<open>round_double n\<close> is that rounding
  of the natural number \<open>n\<close>, and \<open>double_shift n\<close> the number of low bits it gives up.
\<close>

fun double_shift :: "nat \<Rightarrow> nat" where
  "double_shift n = (if n < 2 ^ 53 then 0 else Suc (double_shift (n div 2)))"

declare double_shift.simps [simp del]

definition round_double :: "nat \<Rightarrow> nat" where
  "round_double n =
     (let e = double_shift n;
          q = n div 2 ^ e;
          r = n mod 2 ^ e
      in if 2 * r < 2 ^ e \<or> (2 * r = 2 ^ e \<and> even q) then q * 2 ^ e else (q + 1) * 2 ^ e)"

definition Packet_get_payload_length ::
  "heap \<Rightarrow> packet \<Rightarrow> (heap \<times> (error + packet)) option" where
  "Packet_get_payload_length h p =
     (if state_p p = GET_PAYLOAD_LENGTH_16 then
        (if size_p p < 2 then Some (h, Inr p)
         else
           (case consume h p 2 of
              None \<Rightarrow> None
            | Some (h1, p1, b) \<Rightarrow>
                (case readUInt16BE h1 b 0 of
                   Inl e \<Rightarrow> Some (h1, Inl e)
                 | Inr v \<Rightarrow>
                     Packet_get_mask_key h1
                       (p1\<lparr>payload_length := Some v, state_p := GET_MASK_KEY\<rparr>))))
      else if state_p p = GET_PAYLOAD_LENGTH_64 then
        (if size_p p < 8 then Some (h, Inr p)
         else
           (case consume h p 8 of
              None \<Rightarrow> None
            | Some (h1, p1, b) \<Rightarrow>
                (case readUInt32BE h1 b 0 of
                   Inl e \<Rightarrow> Some (h1, Inl e)
                 | Inr hi \<Rightarrow>
                     (case readUInt32BE h1 b 4 of
                        Inl e \<Rightarrow> Some (h1, Inl e)
                      | Inr lo \<Rightarrow>
                          Packet_get_mask_key h1
                            (p1\<lparr>payload_length := Some (round_double (hi * 2 ^ 32 + lo)),
                                state_p := GET_MASK_KEY\<rparr>)))))
      else Packet_get_mask_key h p)"

text \<open>\<^verbatim>\<open>constructor(data: Buffer)\<close>: the header block, then the blocks above.\<close>

definition Packet :: "heap \<Rightarrow> buffer \<Rightarrow> (heap \<times> (error + packet)) option" where
  "Packet h d =
     (let p = \<lparr>state_p = GET_HEADER, data = d, size_p = int (len d), fin = None, rsv1 = None,
               opcode = None, mask_p = None, payload = None, payload_length = None,
               mask_key = None, close_code = None\<rparr>
      in if size_p p < 2 then Some (h, Inr p)
         else
           (case consume h p 2 of
              None \<Rightarrow> None
            | Some (h1, p1, buf) \<Rightarrow>
                (let fin_v = (buf_get h1 buf 0 AND 0x80 = 0x80);
                     rsv1_v = (buf_get h1 buf 0 AND 0x40 = 0x40);
                     opcode_v = unat (buf_get h1 buf 0 AND 0x0f);
                     mask_v = (buf_get h1 buf 1 AND 0x80 = 0x80);
                     length_v = unat (buf_get h1 buf 1 AND 0x7f);
                     p2 = p1\<lparr>fin := Some fin_v, rsv1 := Some rsv1_v, opcode := Some opcode_v,
                             mask_p := Some mask_v, payload_length := Some length_v\<rparr>
                 in if 8 \<le> opcode_v \<and> 125 < length_v then
                      Some (h1, Inl (Error ''control frames must be less than 125 bytes.''))
                    else if 8 \<le> opcode_v \<and> \<not> fin_v then
                      Some (h1, Inl (Error ''control frames must not be fragmented.''))
                    else
                      Packet_get_payload_length h1
                        (p2\<lparr>state_p :=
                              (if length_v = 126 then GET_PAYLOAD_LENGTH_16
                               else if length_v = 127 then GET_PAYLOAD_LENGTH_64
                               else GET_MASK_KEY)\<rparr>))))"

section \<open>The connection: \<^verbatim>\<open>class WebSocket\<close>\<close>

text \<open>
  socket.ts. The collaborators of the class are Node's: the HTTP request
  (\<^verbatim>\<open>ClientRequest\<close>), the transport (\<^verbatim>\<open>net.Socket\<close>), the event emitter, the hash and the
  random source. Each is modelled by what the class does to it: the options the request
  was opened with and whether it was destroyed, the bytes written to the transport, the
  events emitted in order (listeners are assumed to be registered and to return), and
  the hash and the random bytes as parameters.
\<close>

datatype ready_state = CONNECTING | OPEN | CLOSING | CLOSED

record URL =
  protocol :: string
  hostname :: string
  url_port :: string
  pathname :: string
  search :: string
  username :: string
  password :: string

record SocketOption =
  versions :: "nat option"
  headers_opt :: "(string \<rightharpoonup> string) option"
  origin :: "string option"
  handshakeTimeout :: "nat option"

datatype header_value = HStr string | HNum nat

record ClientRequestArgs =
  port :: nat
  host :: string
  headers :: "string \<rightharpoonup> header_value"
  path :: "string option"
  timeout :: "nat option"
  auth :: "string option"
  socketPath :: "string option"

record ClientRequest =
  args :: ClientRequestArgs
  destroyed :: bool

record IncomingMessage =
  statusCode :: nat
  statusMessage :: string
  resp_headers :: "string \<rightharpoonup> string"

record Socket =
  written :: "byte list list"
  unshifted :: "byte list list"
  sock_destroyed :: bool
  sock_ended :: bool
  sock_timeout :: "nat option"
  noDelay :: bool

text \<open>
  An emitted event with its arguments. A Buffer argument is recorded as the bytes it
  holds when the listeners run (\<open>None\<close> for \<^verbatim>\<open>undefined\<close>).
\<close>

datatype event =
  Ev_open
  | Ev_message "byte list option"
  | Ev_close nat string
  | Ev_error error
  | Ev_ping "byte list option"
  | Ev_pong "byte list option"
  | Ev_upgrade IncomingMessage
  | Ev_http_response IncomingMessage

text \<open>
  The fields of the class; \<open>protocol_set\<close> is the constructor's local set that the upgrade
  handler closes over, \<open>emitted\<close> and \<open>console\<close> are the traces of \<^verbatim>\<open>this.emit\<close> and
  \<^verbatim>\<open>console.log\<close>. Listeners run inside \<^verbatim>\<open>this.emit\<close> and can read the public field
  \<^verbatim>\<open>state\<close>: \<open>seen\<close> holds, for every emitted event in order, the value of
  \<^verbatim>\<open>this.state\<close> at that call.
\<close>

record websocket =
  url :: URL
  protocols :: "string list"
  version :: nat
  secure :: bool
  unix :: bool
  nonce :: string
  req :: ClientRequest
  socket :: "Socket option"
  state :: ready_state
  closeCode :: nat
  closeReason :: string
  protocol_set :: "string list"
  emitted :: "event list"
  seen :: "ready_state list"
  console :: "string list"

datatype protocols_arg = P_undefined | P_string string | P_list "string list"

text \<open>An argument typed \<^verbatim>\<open>any\<close>: a Buffer, a string, a number (given by what
  \<^verbatim>\<open>toString()\<close> prints for it) or \<^verbatim>\<open>undefined\<close>.\<close>

datatype js_data = J_buffer buffer | J_string string | J_number string | J_undefined

definition bytes_of_string :: "string \<Rightarrow> byte list" where
  "bytes_of_string s = map of_char s"

text \<open>
  \<^verbatim>\<open>buf.toString()\<close> decodes UTF-8, and every maximal ill-formed part of the input
  becomes one U+FFFD. On strings given by their UTF-8 code units this keeps the
  well-formed sequences and puts \<^verbatim>\<open>EF BF BD\<close> for each ill-formed part.
  \<open>utf8_decode needed lo hi pend bs\<close> reads \<open>bs\<close> with \<open>needed\<close> continuation bytes
  outstanding for the sequence begun in \<open>pend\<close>, the next of them within \<open>lo\<close> and \<open>hi\<close>.
\<close>

function utf8_decode :: "nat \<Rightarrow> byte \<Rightarrow> byte \<Rightarrow> byte list \<Rightarrow> byte list \<Rightarrow> byte list" where
  "utf8_decode needed lo hi pend [] = (if needed = 0 then [] else [0xEF, 0xBF, 0xBD])"
| "utf8_decode needed lo hi pend (b # bs) =
     (if needed = 0 then
        (if b \<le> 0x7F then b # utf8_decode 0 0x80 0xBF [] bs
         else if 0xC2 \<le> b \<and> b \<le> 0xDF then utf8_decode 1 0x80 0xBF [b] bs
         else if 0xE0 \<le> b \<and> b \<le> 0xEF then
           utf8_decode 2 (if b = 0xE0 then 0xA0 else 0x80) (if b = 0xED then 0x9F else 0xBF) [b] bs
         else if 0xF0 \<le> b \<and> b \<le> 0xF4 then
           utf8_decode 3 (if b = 0xF0 then 0x90 else 0x80) (if b = 0xF4 then 0x8F else 0xBF) [b] bs
         else [0xEF, 0xBF, 0xBD] @ utf8_decode 0 0x80 0xBF [] bs)
      else if b < lo \<or> hi < b then [0xEF, 0xBF, 0xBD] @ utf8_decode 0 0x80 0xBF [] (b # bs)
      else if needed = 1 then (pend @ [b]) @ utf8_decode 0 0x80 0xBF [] bs
      else utf8_decode (needed - 1) 0x80 0xBF (pend @ [b]) bs)"
  by pat_completeness auto

termination
  by (relation "measure (\<lambda>(needed, lo, hi, pend, bs). 2 * length bs + (if needed = 0 then 0 else 1))")
    auto

definition string_of_bytes :: "byte list \<Rightarrow> string" where
  "string_of_bytes bs = map (\<lambda>b. char_of (unat b)) (utf8_decode 0 0x80 0xBF [] bs)"

text \<open>The character class of \<^verbatim>\<open>/^[!#$%&'*+\-.0-9A-Z^_`|a-z~]+$/\<close>, by character code.\<close>

definition token_char :: "char \<Rightarrow> bool" where
  "token_char c =
     (let n = (of_char c :: nat)
      in n = 33 \<or> (35 \<le> n \<and> n \<le> 39) \<or> n = 42 \<or> n = 43 \<or> n = 45 \<or> n = 46
         \<or> (48 \<le> n \<and> n \<le> 57) \<or> (65 \<le> n \<and> n \<le> 90) \<or> n = 94 \<or> n = 95 \<or> n = 96
         \<or> n = 124 \<or> (97 \<le> n \<and> n \<le> 122) \<or> n = 126)"

definition protocol_regex_test :: "string \<Rightarrow> bool" where
  "protocol_regex_test s = (s \<noteq> [] \<and> list_all token_char s)"

text \<open>The loop \<^verbatim>\<open>for(const protocol of this.protocols)\<close> over the set built so far.\<close>

fun check_protocols :: "string list \<Rightarrow> string list \<Rightarrow> error + string list" where
  "check_protocols [] pset = Inr pset"
| "check_protocols (p # ps) pset =
     (if \<not> protocol_regex_test p \<or> p \<in> set pset
      then Inl (Error ''subprotocol cannot be duplicated or invalid.'')
      else check_protocols ps (pset @ [p]))"

text \<open>\<^verbatim>\<open>list.join(sep)\<close> and \<^verbatim>\<open>str.split(sep)\<close> for a one-character separator.\<close>

fun join :: "string \<Rightarrow> string list \<Rightarrow> string" where
  "join sep [] = []"
| "join sep [x] = x"
| "join sep (x # y # ys) = x @ sep @ join sep (y # ys)"

fun split :: "char \<Rightarrow> string \<Rightarrow> string list" where
  "split sep [] = [[]]"
| "split sep (c # cs) =
     (if c = sep then [] # split sep cs
      else (case split sep cs of
              [] \<Rightarrow> [[c]]
            | w # ws \<Rightarrow> (c # w) # ws))"

text \<open>\<^verbatim>\<open>array[i]\<close>, \<^verbatim>\<open>undefined\<close> past the end.\<close>

definition index :: "'a list \<Rightarrow> nat \<Rightarrow> 'a option" where
  "index xs i = (if i < length xs then Some (xs ! i) else None)"



text \<open>
  \<^verbatim>\<open>constructor(address, protocols?, options?)\<close>, up to the request it opens with
  \<^verbatim>\<open>http.get(client)\<close>. \<open>nonce_v\<close> is \<^verbatim>\<open>randomBytes(16).toString('base64')\<close>. The port
  expression parses as \<^verbatim>\<open>(this.url.port || this.secure) ? 443 : 80\<close>; the statement on
  \<^verbatim>\<open>options?.origin\<close> only reads a header and changes nothing.
\<close>

definition WebSocket ::
  "string \<Rightarrow> URL \<Rightarrow> protocols_arg \<Rightarrow> SocketOption option \<Rightarrow> error + websocket" where
  "WebSocket nonce_v address protocols_v options =
     (let protocols_l = (case protocols_v of
                           P_string s \<Rightarrow> [s] | P_undefined \<Rightarrow> [] | P_list ps \<Rightarrow> ps);
          version_v = (case options of
                         None \<Rightarrow> 13
                       | Some opt \<Rightarrow> (case versions opt of
                                       None \<Rightarrow> 13
                                     | Some v \<Rightarrow> if v = 0 then 13 else v));
          secure_v = (protocol address = ''wss:'');
          unix_v = (protocol address = ''ws+unix:'');
          extra = (case options of
                     None \<Rightarrow> Map.empty
                   | Some opt \<Rightarrow> (case headers_opt opt of
                                   None \<Rightarrow> Map.empty
                                 | Some m \<Rightarrow> map_option HStr \<circ> m));
          client = \<lparr>port = (if url_port address \<noteq> [] \<or> secure_v then 443 else 80),
                    host = hostname address,
                    headers = [''Upgrade'' \<mapsto> HStr ''websocket'',
                               ''Connection'' \<mapsto> HStr ''Upgrade'',
                               ''Sec-WebSocket-Version'' \<mapsto> HNum version_v,
                               ''Sec-WebSocket-Key'' \<mapsto> HStr nonce_v] ++ extra,
                    path = Some (pathname address @ search address),
                    timeout = (case options of None \<Rightarrow> None | Some opt \<Rightarrow> handshakeTimeout opt),
                    auth = None,
                    socketPath = None\<rparr>
      in case (if 0 < length protocols_l then check_protocols protocols_l [] else Inr []) of
           Inl e \<Rightarrow> Inl e
         | Inr pset \<Rightarrow>
             (let client1 = (if 0 < length protocols_l
                             then client\<lparr>headers := (headers client)
                                    (''Sec-WebSocket-Protocol'' \<mapsto> HStr (join '','' protocols_l))\<rparr>
                             else client);
                  client2 = (if username address \<noteq> [] \<or> password address \<noteq> []
                             then client1\<lparr>auth := Some (username address @ '':'' @ password address)\<rparr>
                             else client1);
                  client3 = (if unix_v
                             then (let socket_parts =
                                         (case path client2 of
                                            None \<Rightarrow> []
                                          | Some s \<Rightarrow> split (CHR '':'') s)
                                   in client2\<lparr>socketPath := index socket_parts 0,
                                              path := index socket_parts 1\<rparr>)
                             else client2)
              in Inr \<lparr>url = address, protocols = protocols_l, version = version_v,
                      secure = secure_v, unix = unix_v, nonce = nonce_v,
                      req = \<lparr>args = client3, destroyed = False\<rparr>,
                      socket = None, state = CONNECTING, closeCode = 1006, closeReason = [],
                      protocol_set = pset, emitted = [], seen = [], console = []\<rparr>))"

definition emit :: "websocket \<Rightarrow> event \<Rightarrow> websocket" where
  "emit ws e = ws\<lparr>emitted := emitted ws @ [e], seen := seen ws @ [state ws]\<rparr>"

definition emit_close :: "websocket \<Rightarrow> websocket" where
  "emit_close ws =
     (let ws1 = ws\<lparr>state := CLOSED\<rparr>
      in emit ws1 (Ev_close (closeCode ws1) (closeReason ws1)))"

definition emit_error_and_close :: "websocket \<Rightarrow> error \<Rightarrow> websocket" where
  "emit_error_and_close ws err =
     (let ws1 = ws\<lparr>state := CLOSING\<rparr>;
          ws2 = emit ws1 (Ev_error err)
      in emit_close ws2)"

definition handshake_failed :: "websocket \<Rightarrow> string \<Rightarrow> websocket" where
  "handshake_failed ws description =
     (let ws1 = ws\<lparr>req := (req ws)\<lparr>destroyed := True\<rparr>\<rparr>
      in emit_error_and_close ws1 (Error description))"




text \<open>\<^verbatim>\<open>socket.on('close', _ => this.emit_close())\<close> is \<open>emit_close\<close> itself.\<close>

definition set_socket :: "heap \<Rightarrow> websocket \<Rightarrow> Socket \<Rightarrow> buffer \<Rightarrow> websocket" where
  "set_socket h ws sock head =
     (let sock1 = sock\<lparr>sock_timeout := Some 0, noDelay := True\<rparr>;
          sock2 = (if 0 < len head
                   then sock1\<lparr>unshifted := unshifted sock1 @ [buf_bytes h head]\<rparr>
                   else sock1);
          ws1 = ws\<lparr>socket := Some sock2\<rparr>;
          ws2 = ws1\<lparr>state := OPEN\<rparr>
      in emit ws2 Ev_open)"

text \<open>
  \<^verbatim>\<open>this.req.on('upgrade', (response, socket, head) => ...)\<close>. \<open>sha1_base64 s\<close> is
  \<^verbatim>\<open>createHash('sha1').update(s).digest('base64')\<close>. A header that is absent or the empty
  string is falsy.
\<close>

definition req_on_upgrade ::
  "(string \<Rightarrow> string) \<Rightarrow> heap \<Rightarrow> websocket \<Rightarrow> IncomingMessage \<Rightarrow> Socket \<Rightarrow> buffer \<Rightarrow> websocket"
  where
  "req_on_upgrade sha1_base64 h ws response sock head =
     (let ws1 = emit ws (Ev_upgrade response);
          digest = sha1_base64 (nonce ws1 @ ''258EAFA5-E914-47DA-95CA-C5AB0DC85B11'')
      in if resp_headers response ''sec-websocket-accept'' \<noteq> Some digest then
           handshake_failed ws1 ''sec-websocket-accept header is not valid.''
         else
           (let server_protocol = resp_headers response ''sec-websocket-protocol''
            in if server_protocol \<noteq> None \<and> server_protocol \<noteq> Some [] then
                 (if length (protocol_set ws1) = 0 then
                    handshake_failed ws1
                      ''nothing was requested, but the server sent a subprotocol.''
                  else if (case server_protocol of
                             None \<Rightarrow> True
                           | Some sp \<Rightarrow> sp \<notin> set (protocol_set ws1)) then
                    handshake_failed ws1 ''server sent a invalid subprotocol.''
                  else set_socket h ws1 sock head)
               else if 0 < length (protocol_set ws1) then
                 handshake_failed ws1 ''server sent no subprotocol.''
               else set_socket h ws1 sock head))"

text \<open>\<^verbatim>\<open>this.socket?.write(packet)\<close>, \<^verbatim>\<open>this.socket?.destroy()\<close>, \<^verbatim>\<open>this.socket?.end()\<close>.\<close>

definition socket_write :: "heap \<Rightarrow> websocket \<Rightarrow> buffer \<Rightarrow> websocket" where
  "socket_write h ws b =
     (case socket ws of
        None \<Rightarrow> ws
      | Some s \<Rightarrow> ws\<lparr>socket := Some (s\<lparr>written := written s @ [buf_bytes h b]\<rparr>)\<rparr>)"

definition socket_destroy :: "websocket \<Rightarrow> websocket" where
  "socket_destroy ws =
     (case socket ws of
        None \<Rightarrow> ws
      | Some s \<Rightarrow> ws\<lparr>socket := Some (s\<lparr>sock_destroyed := True\<rparr>)\<rparr>)"

definition socket_end :: "websocket \<Rightarrow> websocket" where
  "socket_end ws =
     (case socket ws of
        None \<Rightarrow> ws
      | Some s \<Rightarrow> ws\<lparr>socket := Some (s\<lparr>sock_ended := True\<rparr>)\<rparr>)"


text \<open>\<^verbatim>\<open>Buffer.isBuffer(data) ? data : Buffer.from(typeof data === 'number' ?
  data.toString() : data)\<close>, shared by \<^verbatim>\<open>ping\<close> and \<^verbatim>\<open>pong\<close>.\<close>

definition control_payload :: "heap \<Rightarrow> js_data \<Rightarrow> error + heap \<times> buffer" where
  "control_payload h d =
     (case d of
        J_buffer b \<Rightarrow> Inr (h, b)
      | J_string s \<Rightarrow> Inr (buf_from h (bytes_of_string s))
      | J_number s \<Rightarrow> Inr (buf_from h (bytes_of_string s))
      | J_undefined \<Rightarrow> Inl TypeError)"


definition pong ::
  "(nat \<Rightarrow> byte) \<Rightarrow> heap \<Rightarrow> websocket \<Rightarrow> js_data \<Rightarrow> error option \<times> heap \<times> websocket" where
  "pong rnd h ws d =
     (if state ws = CONNECTING then (Some (Error ''pong -> websocket is connecting.''), h, ws)
      else
        (case control_payload h d of
           Inl e \<Rightarrow> (Some e, h, ws)
         | Inr (h1, payload_v) \<Rightarrow>
             if 125 < len payload_v then
               (Some (Error ''payload for PONG(0x0a) is longer than 125 bytes.''), h1, ws)
             else
               (case frame rnd h1 10 payload_v True False True of
                  Inl e \<Rightarrow> (Some e, h1, ws)
                | Inr (h2, packet_v) \<Rightarrow> (None, h2, socket_write h2 ws packet_v))))"

text \<open>\<^verbatim>\<open>close(code: number, reason: string)\<close>\<close>

definition close ::
  "(nat \<Rightarrow> byte) \<Rightarrow> heap \<Rightarrow> websocket \<Rightarrow> nat \<Rightarrow> string \<Rightarrow> error option \<times> heap \<times> websocket"
  where
  "close rnd h ws code reason =
     (if state ws = CLOSED then (None, h, ws)
      else if state ws = CONNECTING then
        (None, h, handshake_failed ws
                    ''websocket was closed before the connection was established.'')
      else if state ws = CLOSING then (None, h, socket_end ws)
      else
        (let ws1 = ws\<lparr>state := CLOSING\<rparr>;
             length_v = length reason
         in if 123 < length_v then
              (Some (Error ''close reason must be less than 132 bytes.''), h, ws1)
            else
              (let (h1, payload_v) = alloc h (2 + length_v)
               in case writeUInt16BE h1 payload_v code 0 of
                    Inl e \<Rightarrow> (Some e, h1, ws1)
                  | Inr h2 \<Rightarrow>
                      (let h3 = buf_copy h2 payload_v 2 (bytes_of_string reason);
                           ws2 = ws1\<lparr>closeCode := code, closeReason := reason\<rparr>
                       in case frame rnd h3 8 payload_v True False True of
                            Inl e \<Rightarrow> (Some e, h3, ws2)
                          | Inr (h4, packet_v) \<Rightarrow> (None, h4, socket_write h4 ws2 packet_v)))))"

text \<open>
  \<^verbatim>\<open>private socket_on_data(data: Buffer)\<close>: a new \<^verbatim>\<open>Packet\<close> for every delivery, then
  the \<^verbatim>\<open>switch\<close> on its opcode. \<^verbatim>\<open>x || y\<close> takes \<^verbatim>\<open>y\<close> for an \<^verbatim>\<open>x\<close> that is undefined,
  0 or the empty string.
\<close>

definition socket_on_data ::
  "(nat \<Rightarrow> byte) \<Rightarrow> heap \<Rightarrow> websocket \<Rightarrow> buffer \<Rightarrow> (error option \<times> heap \<times> websocket) option"
  where
  "socket_on_data rnd h ws d =
     (case Packet h d of
        None \<Rightarrow> None
      | Some (h1, Inl e) \<Rightarrow> Some (Some e, h1, ws)
      | Some (h1, Inr packet_v) \<Rightarrow>
          Some
            (case opcode packet_v of
               None \<Rightarrow> (None, h1, ws)
             | Some opc \<Rightarrow>
                 if opc = 0 then
                   (None, h1, ws\<lparr>console := console ws @ [''Continuation Frame.'']\<rparr>)
                 else if opc = 1 then
                   (None, h1, emit ws (Ev_message (map_option (buf_bytes h1) (payload packet_v))))
                 else if opc = 2 then
                   (None, h1, emit ws (Ev_message (map_option (buf_bytes h1) (payload packet_v))))
                 else if opc = 8 then
                   (let ws1 = ws\<lparr>closeCode := (case close_code packet_v of
                                                  None \<Rightarrow> 1006
                                                | Some c \<Rightarrow> if c = 0 then 1006 else c)\<rparr>;
                        reason = (case payload packet_v of
                                    None \<Rightarrow> []
                                  | Some b \<Rightarrow> string_of_bytes (buf_bytes h1 b));
                        ws2 = ws1\<lparr>closeReason :=
                                     (if reason = [] then ''Abnormal Closure'' else reason)\<rparr>
                    in (None, h1, socket_destroy ws2))
                 else if opc = 9 then
                   (case pong rnd h1 ws (case payload packet_v of
                                           None \<Rightarrow> J_undefined
                                         | Some b \<Rightarrow> J_buffer b) of
                      (Some e, h2, ws1) \<Rightarrow> (Some e, h2, ws1)
                    | (None, h2, ws1) \<Rightarrow>
                        (None, h2,
                         emit ws1 (Ev_ping (map_option (buf_bytes h2) (payload packet_v)))))
                 else if opc = 10 then
                   (None, h1, emit ws (Ev_pong (map_option (buf_bytes h1) (payload packet_v))))
                 else (None, h1, ws)))"

section \<open>Runs of a connection\<close>




section \<open>Notions used in the proofs\<close>

text \<open>The bytes a packet still counts as unread lie inside its buffer.\<close>

definition fits :: "packet \<Rightarrow> bool" where
  "fits p = (size_p p \<le> int (len (data p)))"

text \<open>
  Masking on byte lists: byte \<open>i\<close> is XORed with byte \<open>i mod 4\<close> of the key. Two
  buffers are apart when their views share no byte. \<open>xor_region h b k m\<close> is the store
  \<open>h\<close> with the first \<open>m\<close> bytes of \<open>b\<close> XORed with the key held in \<open>k\<close>.
\<close>

definition xor_mask :: "byte list \<Rightarrow> byte list \<Rightarrow> byte list" where
  "xor_mask key bs = map (\<lambda>i. bs ! i XOR key ! (i mod 4)) [0..<length bs]"

definition apart :: "buffer \<Rightarrow> buffer \<Rightarrow> bool" where
  "apart b k = (base b \<noteq> base k \<or> byteOffset k + len k \<le> byteOffset b
                \<or> byteOffset b + len b \<le> byteOffset k)"

definition xor_region :: "heap \<Rightarrow> buffer \<Rightarrow> buffer \<Rightarrow> nat \<Rightarrow> heap" where
  "xor_region h b k m =
     h\<lparr>mem := (mem h)(base b :=
        (\<lambda>j. if byteOffset b \<le> j \<and> j < byteOffset b + m
              then mem h (base b) j XOR buf_get h k ((j - byteOffset b) mod 4)
              else mem h (base b) j))\<rparr>"

text \<open>
  The header \<^verbatim>\<open>Packet.frame\<close> writes in front of the mask key and the payload, as a list
  of bytes, and the number of bytes of its length extension.
\<close>

definition be32 :: "nat \<Rightarrow> byte list" where
  "be32 v = [of_nat (v div 16777216), of_nat (v div 65536), of_nat (v div 256), of_nat v]"

definition ext_len :: "nat \<Rightarrow> nat" where
  "ext_len L = (if L < 126 then 0 else if L < 65536 then 2 else 8)"

definition frame_header :: "bool \<Rightarrow> nat \<Rightarrow> nat \<Rightarrow> bool \<Rightarrow> byte list" where
  "frame_header fin_arg opc L mask_arg =
     [of_nat ((if fin_arg then 128 else 0) + opc),
      (if mask_arg then 128 else 0)
        + (if L < 126 then of_nat L else if L < 65536 then 126 else 127)]
     @ (if L < 126 then []
        else if L < 65536 then [of_nat (L div 256), of_nat L]
        else be32 (L div 2 ^ 32) @ be32 (L mod 2 ^ 32))"

text \<open>
  Reading a buffer \<open>d\<close> front to back: \<open>advance p n\<close> is the packet after
  \<^verbatim>\<open>consume(n)\<close> took \<open>n\<close> bytes that were there, and \<open>pinv d c p\<close> says that \<open>p\<close> has
  consumed the first \<open>c\<close> bytes of \<open>d\<close>.
\<close>

definition advance :: "packet \<Rightarrow> nat \<Rightarrow> packet" where
  "advance p n =
     p\<lparr>size_p := size_p p - int n,
       data := (if n = len (data p) then data p else buf_slice (data p) n (len (data p)))\<rparr>"

definition pinv :: "buffer \<Rightarrow> nat \<Rightarrow> packet \<Rightarrow> bool" where
  "pinv d c p =
     (c \<le> len d \<and> size_p p = int (len d - c)
      \<and> (size_p p = 0 \<or> data p = buf_slice d c (len d)))"

text \<open>
  A frame as it lies in a buffer \<open>d\<close>, read off the bytes by the layout of the wire
  format: the fin bit, the opcode, the mask bit and the 7-bit length of the two header
  bytes, the size of the length extension, the payload length, and the views of the mask
  key and of the payload. \<open>complete_frame h d\<close> says that \<open>d\<close> holds all bytes of the
  frame that starts at its first byte.
\<close>

definition wire_fin :: "heap \<Rightarrow> buffer \<Rightarrow> bool" where
  "wire_fin h d = (buf_get h d 0 AND 0x80 = 0x80)"

definition wire_opcode :: "heap \<Rightarrow> buffer \<Rightarrow> nat" where
  "wire_opcode h d = unat (buf_get h d 0 AND 0x0f)"

definition wire_masked :: "heap \<Rightarrow> buffer \<Rightarrow> bool" where
  "wire_masked h d = (buf_get h d 1 AND 0x80 = 0x80)"

definition wire_len7 :: "heap \<Rightarrow> buffer \<Rightarrow> nat" where
  "wire_len7 h d = unat (buf_get h d 1 AND 0x7f)"

definition wire_ext :: "heap \<Rightarrow> buffer \<Rightarrow> nat" where
  "wire_ext h d = (if wire_len7 h d = 126 then 2 else if wire_len7 h d = 127 then 8 else 0)"

definition wire_length :: "heap \<Rightarrow> buffer \<Rightarrow> nat" where
  "wire_length h d =
     (if wire_len7 h d = 126 then unat (buf_get h d 2) * 256 + unat (buf_get h d 3)
      else if wire_len7 h d = 127 then
        round_double
          ((unat (buf_get h d 2) * 16777216 + unat (buf_get h d 3) * 65536
              + unat (buf_get h d 4) * 256 + unat (buf_get h d 5)) * 2 ^ 32
           + (unat (buf_get h d 6) * 16777216 + unat (buf_get h d 7) * 65536
              + unat (buf_get h d 8) * 256 + unat (buf_get h d 9)))
      else wire_len7 h d)"

definition wire_key :: "heap \<Rightarrow> buffer \<Rightarrow> buffer" where
  "wire_key h d = buf_slice d (2 + wire_ext h d) (2 + wire_ext h d + 4)"

definition wire_payload_off :: "heap \<Rightarrow> buffer \<Rightarrow> nat" where
  "wire_payload_off h d = 2 + wire_ext h d + (if wire_masked h d then 4 else 0)"

definition wire_payload :: "heap \<Rightarrow> buffer \<Rightarrow> buffer" where
  "wire_payload h d = buf_slice d (wire_payload_off h d) (wire_payload_off h d + wire_length h d)"

definition complete_frame :: "heap \<Rightarrow> buffer \<Rightarrow> bool" where
  "complete_frame h d =
     (2 + wire_ext h d \<le> len d \<and> wire_payload_off h d + wire_length h d \<le> len d)"

text \<open>
  The payload the frame carries: the bytes of the payload view, XORed with the key when
  the mask bit is set.
\<close>

definition wire_payload_bytes :: "heap \<Rightarrow> buffer \<Rightarrow> byte list" where
  "wire_payload_bytes h d =
     (if wire_masked h d
      then xor_mask (buf_bytes h (wire_key h d)) (buf_bytes h (wire_payload h d))
      else buf_bytes h (wire_payload h d))"

text \<open>
  The header check of the constructor passes: the frame is no control frame, or it is
  one of at most 125 bytes with the fin bit set.
\<close>

definition legal_header :: "heap \<Rightarrow> buffer \<Rightarrow> bool" where
  "legal_header h d =
     (wire_opcode h d < 8 \<or> (wire_len7 h d \<le> 125 \<and> wire_fin h d))"

text \<open>
  The end of the constructor's last block, once the payload \<open>b\<close> of \<open>n > 0\<close> bytes has
  been taken and unmasked: the post-processing of a Close frame, and the state
  \<open>COMPLETE\<close>.
\<close>

definition finish :: "heap \<Rightarrow> packet \<Rightarrow> buffer \<Rightarrow> nat \<Rightarrow> error + packet" where
  "finish h p b n =
     (if opcode p = Some 8 then
        (if n = 1 then Inl (Error ''close frame length is not valid.'')
         else Inr (p\<lparr>payload := Some b,
                     close_code := Some (unat (buf_get h b 0) * 256 + unat (buf_get h b 1)),
                     payload := Some (buf_slice b 2 (len b)),
                     state_p := COMPLETE\<rparr>))
      else Inr (p\<lparr>payload := Some b, state_p := COMPLETE\<rparr>))"

text \<open>
  The two outcomes of the upgrade handler, as the connection it returns. Accepted:
  \<^verbatim>\<open>set_socket\<close> ran, so the transport is set (timeout off, no delay, a non-empty
  \<^verbatim>\<open>head\<close> pushed back), the state is \<open>OPEN\<close>, \<^verbatim>\<open>'open'\<close> follows \<^verbatim>\<open>'upgrade'\<close>,
  and every other field is as it was. Failed: \<^verbatim>\<open>handshake_failed\<close> ran, so the request
  is destroyed, the state is \<open>CLOSED\<close>, \<^verbatim>\<open>'error'\<close> with the given message, emitted in
  state \<open>CLOSING\<close>, precedes \<^verbatim>\<open>'close'\<close>, and every other field is as it was.
\<close>

definition accepted ::
  "heap \<Rightarrow> websocket \<Rightarrow> IncomingMessage \<Rightarrow> Socket \<Rightarrow> buffer \<Rightarrow> websocket \<Rightarrow> bool" where
  "accepted h ws r sock head ws' =
     (ws' = ws\<lparr>socket := Some (sock\<lparr>sock_timeout := Some 0, noDelay := True,
                                    unshifted := (if 0 < len head
                                                  then unshifted sock @ [buf_bytes h head]
                                                  else unshifted sock)\<rparr>),
               state := OPEN,
               emitted := emitted ws @ [Ev_upgrade r, Ev_open],
               seen := seen ws @ [state ws, OPEN]\<rparr>)"

definition handshake_failure :: "websocket \<Rightarrow> IncomingMessage \<Rightarrow> string \<Rightarrow> websocket \<Rightarrow> bool" where
  "handshake_failure ws r msg ws' =
     (ws' = ws\<lparr>req := (req ws)\<lparr>destroyed := True\<rparr>,
               state := CLOSED,
               emitted := emitted ws @ [Ev_upgrade r, Ev_error (Error msg),
                                        Ev_close (closeCode ws) (closeReason ws)],
               seen := seen ws @ [state ws, CLOSING, CLOSED]\<rparr>)"




section \<open>Example values\<close>

text \<open>
  A store, a URL, options with a handshake timeout, a transport and upgrade responses,
  for the concrete instances below. In them the digest of the key is the fixed string
  \<^verbatim>\<open>digest-of-the-key\<close>.
\<close>

definition empty_heap :: heap where
  "empty_heap = \<lparr>mem = (\<lambda>_ _. 0), fresh = 0\<rparr>"

definition example_url :: URL where
  "example_url = \<lparr>protocol = ''ws:'', hostname = ''example.com'', url_port = '''',
     pathname = ''/chat'', search = '''', username = '''', password = ''''\<rparr>"

definition example_options :: SocketOption where
  "example_options = \<lparr>versions = None, headers_opt = None, origin = None,
     handshakeTimeout = Some 5000\<rparr>"

definition example_response :: "string option \<Rightarrow> IncomingMessage" where
  "example_response sp =
     \<lparr>statusCode = 101, statusMessage = ''Switching Protocols'',
      resp_headers = [''sec-websocket-accept'' \<mapsto> ''digest-of-the-key'']
                     ++ (case sp of None \<Rightarrow> Map.empty
                                  | Some s \<Rightarrow> [''sec-websocket-protocol'' \<mapsto> s])\<rparr>"

definition example_socket :: Socket where
  "example_socket = \<lparr>written = [], unshifted = [], sock_destroyed = False, sock_ended = False,
     sock_timeout = None, noDelay = False\<rparr>"

definition example_ws :: "protocols_arg \<Rightarrow> websocket" where
  "example_ws pv =
     projr (WebSocket ''dGhlIHNhbXBsZSBub25jZQ=='' example_url pv (Some example_options))"

definition example_open :: websocket where
  "example_open =
     req_on_upgrade (\<lambda>s. ''digest-of-the-key'') empty_heap (example_ws P_undefined)
       (example_response None) example_socket \<lparr>base = 0, byteOffset = 0, len = 0\<rparr>"

section \<open>\<^verbatim>\<open>Packet.frame\<close> returns\<close>

lemma len_alloc: "len (snd (alloc h n)) = n"
  by (simp add: alloc_def)

lemma frame_write_length_Inr:
  assumes "sz < 2 ^ 64"
    and "len dest = 2 + (if sz < 126 then 0 else if sz < 65536 then 2 else 8) + k"
  shows "\<exists>h' off. frame_write_length h dest sz = Inr (h', off)"
proof -
  have "sz div 2 ^ 32 < (2::nat) ^ 32"
    using assms(1) by (simp add: less_mult_imp_div_less)
  moreover have "sz mod 2 ^ 32 < (2::nat) ^ 32"
    by simp
  ultimately show ?thesis
    using assms(2)
    by (auto simp: frame_write_length_def writeUInt16BE_def writeUInt32BE_def Let_def
        buf_set_def)
qed

lemma len_buf_concat: "len (snd (buf_concat h bs n)) = n"
  by (simp add: buf_concat_def alloc_def)

lemma frame_returns_length:
  assumes "len pl < 2 ^ 64"
  shows "\<exists>h' out. frame rnd h opc pl fin_arg rsv1_arg mask_arg = Inr (h', out) \<and>
           len out = (if len pl < 126 then 2 else if len pl < 65536 then 4 else 10)
                     + (if mask_arg then 4 else 0) + len pl"
proof -
  define n where "n = 2 + (if len pl < 126 then 0 else if len pl < 65536 then 2 else 8)
                        + (if mask_arg then 4 else (0::nat))"
  obtain h1 dest where a: "alloc h n = (h1, dest)"
    by (cases "alloc h n")
  then have ld: "len dest = n"
    using len_alloc [of h n] by simp
  define h3 where "h3 = buf_set (buf_set h1 dest 0 (of_nat ((if fin_arg then 128 else 0) + opc)))
                          dest 1 (if mask_arg then 128 else 0)"
  obtain h4 off where w: "frame_write_length h3 dest (len pl) = Inr (h4, off)"
    using frame_write_length_Inr [OF assms, of dest "if mask_arg then 4 else 0" h3] ld
    by (auto simp: n_def)
  define r where "r = (if mask_arg then frame_apply_mask rnd h4 dest pl off (len pl)
                     else (h4, off))"
  have f: "frame rnd h opc pl fin_arg rsv1_arg mask_arg
           = Inr (buf_concat (fst r) [dest, pl] (len dest + len pl))"
    unfolding frame_def Let_def n_def [symmetric] a prod.case h3_def [symmetric] w sum.case
      r_def [symmetric]
    by (simp add: case_prod_beta)
  obtain h' out where c: "buf_concat (fst r) [dest, pl] (len dest + len pl) = (h', out)"
    by (cases "buf_concat (fst r) [dest, pl] (len dest + len pl)")
  then have "len out = n + len pl"
    using len_buf_concat [of "fst r" "[dest, pl]" "len dest + len pl"] ld by simp
  then show ?thesis
    using f c by (auto simp: n_def)
qed


section \<open>The Unix-domain endpoint\<close>

lemma split_nonempty: "split c s \<noteq> []"
  by (induction s) (auto split: list.splits)

lemma split_unfold:
  "split c s = takeWhile (\<lambda>x. x \<noteq> c) s
               # (if c \<in> set s then split c (tl (dropWhile (\<lambda>x. x \<noteq> c) s)) else [])"
proof (induction s)
  case Nil
  then show ?case by simp
next
  case (Cons a s)
  then show ?case
    by (cases "split c s") (auto simp: split_nonempty)
qed

lemma index_split_0: "index (split c s) 0 = Some (takeWhile (\<lambda>x. x \<noteq> c) s)"
  by (subst split_unfold) (simp add: index_def)

lemma index_split_1:
  "index (split c s) 1 =
     (if c \<in> set s
      then Some (takeWhile (\<lambda>x. x \<noteq> c) (tl (dropWhile (\<lambda>x. x \<noteq> c) s)))
      else None)"
proof (cases "c \<in> set s")
  case True
  have "split c s = takeWhile (\<lambda>x. x \<noteq> c) s # split c (tl (dropWhile (\<lambda>x. x \<noteq> c) s))"
    using True by (subst split_unfold) simp
  moreover have "index (x # xs) 1 = index xs 0" for x :: string and xs
    by (simp add: index_def)
  ultimately show ?thesis
    using True by (simp add: index_split_0)
next
  case False
  then have "split c s = [takeWhile (\<lambda>x. x \<noteq> c) s]"
    by (subst split_unfold) simp
  then show ?thesis
    using False by (simp add: index_def)
qed

lemma WebSocket_unix_args:
  assumes "WebSocket n a pv opts = Inr ws" and "protocol a = ''ws+unix:''"
  shows "socketPath (args (req ws)) = index (split (CHR '':'') (pathname a @ search a)) 0"
    and "path (args (req ws)) = index (split (CHR '':'') (pathname a @ search a)) 1"
  using assms
  by (auto simp: WebSocket_def Let_def split: sum.splits if_splits)

text \<open>
  Claim C7, as the code has it. For the scheme \<^verbatim>\<open>ws+unix:\<close> the constructor splits the
  request path (\<^verbatim>\<open>pathname + search\<close>) at every \<^verbatim>\<open>':'\<close>. The part before the first
  \<^verbatim>\<open>':'\<close> is the socket path. The request path sent over the socket is the part between
  the first \<^verbatim>\<open>':'\<close> and the second one, or the whole remainder when there is no second
  one; what follows a second \<^verbatim>\<open>':'\<close> is dropped, and without any \<^verbatim>\<open>':'\<close> the request
  path is undefined.
\<close>

theorem unix_path_split:
  assumes "WebSocket n a pv opts = Inr ws" and "protocol a = ''ws+unix:''"
  shows "socketPath (args (req ws)) = Some (takeWhile (\<lambda>x. x \<noteq> CHR '':'') (pathname a @ search a))
       \<and> path (args (req ws)) =
           (if CHR '':'' \<in> set (pathname a @ search a)
            then Some (takeWhile (\<lambda>x. x \<noteq> CHR '':'')
                         (tl (dropWhile (\<lambda>x. x \<noteq> CHR '':'') (pathname a @ search a))))
            else None)"
  using WebSocket_unix_args [OF assms] by (simp only: index_split_0 index_split_1)

theorem unix_path_split_witness:
  "socketPath (args (req (projr (WebSocket ''bm9uY2U=''
       \<lparr>protocol = ''ws+unix:'', hostname = '''', url_port = '''',
        pathname = ''/tmp/ws.sock:/chat'', search = ''?v=1'', username = '''',
        password = ''''\<rparr> P_undefined None)))) = Some ''/tmp/ws.sock''
   \<and> path (args (req (projr (WebSocket ''bm9uY2U=''
       \<lparr>protocol = ''ws+unix:'', hostname = '''', url_port = '''',
        pathname = ''/tmp/ws.sock:/chat'', search = ''?v=1'', username = '''',
        password = ''''\<rparr> P_undefined None)))) = Some ''/chat?v=1''"
proof -
  let ?a = "\<lparr>protocol = ''ws+unix:'', hostname = '''', url_port = '''',
            pathname = ''/tmp/ws.sock:/chat'', search = ''?v=1'', username = '''',
            password = ''''\<rparr>"
  obtain ws where c: "WebSocket ''bm9uY2U='' ?a P_undefined None = Inr ws"
    by (simp add: WebSocket_def Let_def)
  have "protocol ?a = ''ws+unix:''" by simp
  from unix_path_split [OF c this] show ?thesis
    unfolding c by simp
qed

text \<open>
  The claim as stated fails on a path with two colons: for
  \<^verbatim>\<open>/tmp/ws.sock:/chat:room\<close> the request path is \<^verbatim>\<open>/chat\<close>, not \<^verbatim>\<open>/chat:room\<close>.
\<close>

theorem unix_path_split_counterexample:
  "(case WebSocket ''bm9uY2U='' \<lparr>protocol = ''ws+unix:'', hostname = '''', url_port = '''',
            pathname = ''/tmp/ws.sock:/chat:room'', search = '''', username = '''',
            password = ''''\<rparr> P_undefined None of
      Inl e \<Rightarrow> False
    | Inr ws \<Rightarrow> socketPath (args (req ws)) = Some ''/tmp/ws.sock''
                \<and> path (args (req ws)) = Some ''/chat''
                \<and> path (args (req ws)) \<noteq> Some ''/chat:room'')"
  by (simp add: WebSocket_def Let_def index_def)

section \<open>The \<^verbatim>\<open>Packet\<close> constructor returns\<close>

text \<open>
  \<^verbatim>\<open>consume(n)\<close> is only called with \<open>n\<close> bytes still unread, so it never reaches its
  copying loop, and the constructor returns (a packet or an exception) on every buffer.
\<close>

lemma consume_Some:
  assumes "int n \<le> size_p p" and "size_p p \<le> int (len (data p))"
  shows "consume h p n =
           Some (h,
                 p\<lparr>size_p := size_p p - int n,
                   data := (if n = len (data p) then data p else buf_slice (data p) n (len (data p)))\<rparr>,
                 (if n = len (data p) then data p else buf_slice (data p) 0 n))"
  using assms by (auto simp: consume_def Let_def)


lemma fits_update [simp]:
  "fits (p\<lparr>state_p := s\<rparr>) = fits p"
  "fits (p\<lparr>mask_key := k\<rparr>) = fits p"
  "fits (p\<lparr>payload_length := n\<rparr>) = fits p"
  "fits (p\<lparr>payload := b\<rparr>) = fits p"
  by (simp_all add: fits_def)






section \<open>The connection states\<close>

lemma state_emit [simp]: "state (emit ws e) = state ws"
  by (simp add: emit_def)

lemma state_emit_close [simp]: "state (emit_close ws) = CLOSED"
  by (simp add: emit_close_def Let_def)

lemma state_emit_error_and_close [simp]: "state (emit_error_and_close ws e) = CLOSED"
  by (simp add: emit_error_and_close_def Let_def)

lemma state_handshake_failed [simp]: "state (handshake_failed ws msg) = CLOSED"
  by (simp add: handshake_failed_def Let_def)

lemma socket_write_fields [simp]:
  "state (socket_write h ws b) = state ws"
  "emitted (socket_write h ws b) = emitted ws"
  "seen (socket_write h ws b) = seen ws"
  by (simp_all add: socket_write_def split: option.splits)

lemma socket_destroy_fields [simp]:
  "state (socket_destroy ws) = state ws"
  "emitted (socket_destroy ws) = emitted ws"
  "seen (socket_destroy ws) = seen ws"
  by (simp_all add: socket_destroy_def split: option.splits)

lemma state_socket_end [simp]: "state (socket_end ws) = state ws"
  by (simp add: socket_end_def split: option.splits)

















section \<open>Closing with a reason that is too long\<close>

text \<open>
  Claim C6, on the code. \<^verbatim>\<open>close\<close> assigns \<^verbatim>\<open>this.state = WebSocket.CLOSING\<close> before it
  measures the reason. Called in state \<open>OPEN\<close> with a reason of more than 123 bytes it
  throws the size error with the state already \<open>CLOSING\<close>: nothing is written, and the
  connection is not left in \<open>OPEN\<close>.
\<close>

theorem close_long_reason:
  assumes "state ws = OPEN" and "123 < length reason"
  shows "close rnd h ws code reason
         = (Some (Error ''close reason must be less than 132 bytes.''), h, ws\<lparr>state := CLOSING\<rparr>)"
  using assms by (simp add: close_def Let_def)

lemma state_example_open: "state example_open = OPEN"
  by (simp add: example_open_def example_ws_def WebSocket_def Let_def example_url_def
      example_options_def req_on_upgrade_def example_response_def set_socket_def emit_def)

theorem close_long_reason_witness:
  "state example_open = OPEN \<and> 123 < length (replicate 124 (CHR ''a''))
   \<and> close (\<lambda>_. 1) empty_heap example_open 1000 (replicate 124 (CHR ''a''))
       = (Some (Error ''close reason must be less than 132 bytes.''), empty_heap,
          example_open\<lparr>state := CLOSING\<rparr>)
   \<and> state (snd (snd (close (\<lambda>_. 1) empty_heap example_open 1000 (replicate 124 (CHR ''a''))))) = CLOSING"
proof -
  have b: "123 < length (replicate 124 (CHR ''a''))" by simp
  show ?thesis
    using close_long_reason [OF state_example_open b, of "\<lambda>_. 1" empty_heap 1000]
      state_example_open b by simp
qed


section \<open>Subprotocol negotiation\<close>

lemma check_protocols_Inr:
  "check_protocols ps acc = Inr pset \<Longrightarrow> pset = acc @ ps"
proof (induction ps arbitrary: acc)
  case Nil
  then show ?case by simp
next
  case (Cons a ps)
  then have "check_protocols ps (acc @ [a]) = Inr pset"
    by (simp split: if_splits)
  then have "pset = (acc @ [a]) @ ps"
    by (rule Cons.IH)
  then show ?case by simp
qed

lemma WebSocket_fields:
  assumes "WebSocket n a pv opts = Inr ws"
  shows "protocol_set ws = protocols ws" and "nonce ws = n"
    and "protocols ws = (case pv of P_string s \<Rightarrow> [s] | P_undefined \<Rightarrow> [] | P_list ps \<Rightarrow> ps)"
    and "state ws = CONNECTING" and "closeCode ws = 1006" and "closeReason ws = []"
    and "socket ws = None" and "emitted ws = []" and "seen ws = []"
proof -
  define ps where "ps = (case pv of P_string s \<Rightarrow> [s] | P_undefined \<Rightarrow> [] | P_list ps \<Rightarrow> ps)"
  obtain pset where c: "(if 0 < length ps then check_protocols ps [] else Inr []) = Inr pset"
    using assms unfolding WebSocket_def Let_def ps_def [symmetric]
    by (cases "if 0 < length ps then check_protocols ps [] else Inr []") simp_all
  have pset: "pset = ps"
    using c check_protocols_Inr [of ps "[]" pset] by (simp split: if_splits)
  have w: "ws = projr (WebSocket n a pv opts)"
    using assms by simp
  have ws: "protocol_set ws = pset \<and> nonce ws = n \<and> protocols ws = ps \<and> state ws = CONNECTING
      \<and> closeCode ws = 1006 \<and> closeReason ws = [] \<and> socket ws = None \<and> emitted ws = []
      \<and> seen ws = []"
    unfolding w WebSocket_def Let_def ps_def [symmetric] c by simp
  show "protocol_set ws = protocols ws" and "nonce ws = n"
    and "protocols ws = (case pv of P_string s \<Rightarrow> [s] | P_undefined \<Rightarrow> [] | P_list ps \<Rightarrow> ps)"
    and "state ws = CONNECTING" and "closeCode ws = 1006" and "closeReason ws = []"
    and "socket ws = None" and "emitted ws = []" and "seen ws = []"
    using ws pset by (simp_all add: ps_def)
qed

lemma emit_fields [simp]:
  "nonce (emit ws e) = nonce ws" "protocol_set (emit ws e) = protocol_set ws"
  by (simp_all add: emit_def)

lemma accepted_set_socket:
  "accepted h ws r sock head (set_socket h (emit ws (Ev_upgrade r)) sock head)"
  by (simp add: accepted_def set_socket_def emit_def Let_def)

lemma failure_handshake_failed:
  "handshake_failure ws r msg (handshake_failed (emit ws (Ev_upgrade r)) msg)"
  by (simp add: handshake_failure_def handshake_failed_def emit_error_and_close_def
      emit_close_def emit_def Let_def)

text \<open>
  Claim C5, as the code has it. For a connection as the constructor made it and an
  upgrade response whose accept header is the digest of the key, the handler decides by
  the reply \<open>sp\<close> in \<^verbatim>\<open>sec-websocket-protocol\<close>. A non-empty reply that is among the
  requested names (\<^verbatim>\<open>chat\<close> for \<^verbatim>\<open>["chat","superchat"]\<close>) is accepted; a non-empty reply
  that is not among them (\<^verbatim>\<open>other\<close>) fails the handshake; with nothing requested every
  non-empty reply fails; with something requested an absent or empty reply fails; with
  nothing requested and no reply the handshake is accepted. An accepted handshake sets
  the transport, makes the state \<open>OPEN\<close> and emits \<^verbatim>\<open>'upgrade'\<close> with the response and
  then \<^verbatim>\<open>'open'\<close>, and it changes no other field: the connection records no negotiated
  subprotocol, the reply is only in the response handed to the \<^verbatim>\<open>'upgrade'\<close> listeners.
\<close>

theorem subprotocol_negotiation:
  assumes "WebSocket n a pv opts = Inr ws"
    and "resp_headers r ''sec-websocket-accept''
           = Some (sha (n @ ''258EAFA5-E914-47DA-95CA-C5AB0DC85B11''))"
  shows "(resp_headers r ''sec-websocket-protocol'' = Some sp \<and> sp \<noteq> []
            \<and> sp \<in> set (protocols ws)
          \<longrightarrow> accepted h ws r sock head (req_on_upgrade sha h ws r sock head))
       \<and> (resp_headers r ''sec-websocket-protocol'' = Some sp \<and> sp \<noteq> []
            \<and> protocols ws \<noteq> [] \<and> sp \<notin> set (protocols ws)
          \<longrightarrow> handshake_failure ws r ''server sent a invalid subprotocol.''
                (req_on_upgrade sha h ws r sock head))
       \<and> (protocols ws = []
            \<and> resp_headers r ''sec-websocket-protocol'' = Some sp \<and> sp \<noteq> []
          \<longrightarrow> handshake_failure ws r ''nothing was requested, but the server sent a subprotocol.''
                (req_on_upgrade sha h ws r sock head))
       \<and> (protocols ws \<noteq> []
            \<and> (resp_headers r ''sec-websocket-protocol'' = None
                \<or> resp_headers r ''sec-websocket-protocol'' = Some [])
          \<longrightarrow> handshake_failure ws r ''server sent no subprotocol.''
                (req_on_upgrade sha h ws r sock head))
       \<and> (protocols ws = []
            \<and> (resp_headers r ''sec-websocket-protocol'' = None
                \<or> resp_headers r ''sec-websocket-protocol'' = Some [])
          \<longrightarrow> accepted h ws r sock head (req_on_upgrade sha h ws r sock head))
       \<and> protocols ws = (case pv of P_string s \<Rightarrow> [s] | P_undefined \<Rightarrow> [] | P_list ps \<Rightarrow> ps)"
  using WebSocket_fields(1-3) [OF assms(1)] assms(2)
  by (auto simp: req_on_upgrade_def Let_def accepted_set_socket failure_handshake_failed)

lemma example_ws_ctor:
  "WebSocket ''dGhlIHNhbXBsZSBub25jZQ=='' example_url (P_list [''chat'', ''superchat''])
     (Some example_options) = Inr (example_ws (P_list [''chat'', ''superchat'']))"
  "WebSocket ''dGhlIHNhbXBsZSBub25jZQ=='' example_url P_undefined
     (Some example_options) = Inr (example_ws P_undefined)"
  by (simp_all add: example_ws_def WebSocket_def Let_def example_url_def example_options_def
      protocol_regex_test_def token_char_def)

lemma example_accept:
  "resp_headers (example_response sp) ''sec-websocket-accept'' = Some ''digest-of-the-key''"
  by (simp add: example_response_def map_add_def split: option.splits)

lemma example_reply:
  "resp_headers (example_response sp) ''sec-websocket-protocol'' = sp"
  by (simp add: example_response_def map_add_def split: option.splits)

theorem subprotocol_negotiation_witness:
  "accepted empty_heap (example_ws (P_list [''chat'', ''superchat'']))
     (example_response (Some ''chat'')) example_socket \<lparr>base = 0, byteOffset = 0, len = 0\<rparr>
     (req_on_upgrade (\<lambda>s. ''digest-of-the-key'') empty_heap
        (example_ws (P_list [''chat'', ''superchat''])) (example_response (Some ''chat''))
        example_socket \<lparr>base = 0, byteOffset = 0, len = 0\<rparr>)
   \<and> handshake_failure (example_ws (P_list [''chat'', ''superchat'']))
       (example_response (Some ''other'')) ''server sent a invalid subprotocol.''
       (req_on_upgrade (\<lambda>s. ''digest-of-the-key'') empty_heap
          (example_ws (P_list [''chat'', ''superchat''])) (example_response (Some ''other''))
          example_socket \<lparr>base = 0, byteOffset = 0, len = 0\<rparr>)
   \<and> handshake_failure (example_ws P_undefined) (example_response (Some ''chat''))
       ''nothing was requested, but the server sent a subprotocol.''
       (req_on_upgrade (\<lambda>s. ''digest-of-the-key'') empty_heap (example_ws P_undefined)
          (example_response (Some ''chat'')) example_socket \<lparr>base = 0, byteOffset = 0, len = 0\<rparr>)
   \<and> handshake_failure (example_ws (P_list [''chat'', ''superchat''])) (example_response None)
       ''server sent no subprotocol.''
       (req_on_upgrade (\<lambda>s. ''digest-of-the-key'') empty_heap
          (example_ws (P_list [''chat'', ''superchat''])) (example_response None)
          example_socket \<lparr>base = 0, byteOffset = 0, len = 0\<rparr>)
   \<and> accepted empty_heap (example_ws P_undefined) (example_response None) example_socket
       \<lparr>base = 0, byteOffset = 0, len = 0\<rparr>
       (req_on_upgrade (\<lambda>s. ''digest-of-the-key'') empty_heap (example_ws P_undefined)
          (example_response None) example_socket \<lparr>base = 0, byteOffset = 0, len = 0\<rparr>)"
proof -
  let ?sha = "\<lambda>s::string. ''digest-of-the-key''"
  let ?hd = "\<lparr>base = 0, byteOffset = 0, len = 0\<rparr>"
  note t1 = subprotocol_negotiation [OF example_ws_ctor(1), of _ ?sha _ empty_heap example_socket ?hd]
  note t2 = subprotocol_negotiation [OF example_ws_ctor(2), of _ ?sha _ empty_heap example_socket ?hd]
  show ?thesis
    using t1 [of "example_response (Some ''chat'')" "''chat''"]
      t1 [of "example_response (Some ''other'')" "''other''"]
      t2 [of "example_response (Some ''chat'')" "''chat''"]
      t1 [of "example_response None" "[]"]
      t2 [of "example_response None" "[]"]
    by (simp add: example_accept example_reply)
qed

text \<open>
  The claim as stated fails on its first case: after the reply \<^verbatim>\<open>chat\<close> no field of the
  connection holds \<^verbatim>\<open>chat\<close> as the negotiated subprotocol. The connection differs from
  the one before the handshake in the transport, the state and the events only, its
  list of protocols is still the requested one, and but for the response handed to the
  \<^verbatim>\<open>'upgrade'\<close> listeners it is the connection that the reply \<^verbatim>\<open>superchat\<close> gives.
\<close>

theorem subprotocol_negotiation_counterexample:
  "req_on_upgrade (\<lambda>s. ''digest-of-the-key'') empty_heap
      (example_ws (P_list [''chat'', ''superchat''])) (example_response (Some ''chat''))
      example_socket \<lparr>base = 0, byteOffset = 0, len = 0\<rparr>
    = (example_ws (P_list [''chat'', ''superchat'']))
        \<lparr>socket := Some (example_socket\<lparr>sock_timeout := Some 0, noDelay := True\<rparr>),
         state := OPEN,
         emitted := [Ev_upgrade (example_response (Some ''chat'')), Ev_open],
         seen := [CONNECTING, OPEN]\<rparr>
   \<and> protocols (req_on_upgrade (\<lambda>s. ''digest-of-the-key'') empty_heap
        (example_ws (P_list [''chat'', ''superchat''])) (example_response (Some ''chat''))
        example_socket \<lparr>base = 0, byteOffset = 0, len = 0\<rparr>) = [''chat'', ''superchat'']
   \<and> (req_on_upgrade (\<lambda>s. ''digest-of-the-key'') empty_heap
        (example_ws (P_list [''chat'', ''superchat''])) (example_response (Some ''chat''))
        example_socket \<lparr>base = 0, byteOffset = 0, len = 0\<rparr>)\<lparr>emitted := []\<rparr>
      = (req_on_upgrade (\<lambda>s. ''digest-of-the-key'') empty_heap
        (example_ws (P_list [''chat'', ''superchat''])) (example_response (Some ''superchat''))
        example_socket \<lparr>base = 0, byteOffset = 0, len = 0\<rparr>)\<lparr>emitted := []\<rparr>"
proof -
  let ?ws = "example_ws (P_list [''chat'', ''superchat''])"
  let ?hd = "\<lparr>base = 0, byteOffset = 0, len = 0\<rparr>"
  have f: "protocol_set ?ws = [''chat'', ''superchat'']" "protocols ?ws = [''chat'', ''superchat'']"
    "nonce ?ws = ''dGhlIHNhbXBsZSBub25jZQ==''" "state ?ws = CONNECTING" "emitted ?ws = []"
    "seen ?ws = []"
    using WebSocket_fields [OF example_ws_ctor(1)] by simp_all
  have u: "req_on_upgrade (\<lambda>s. ''digest-of-the-key'') empty_heap ?ws (example_response (Some sp))
             example_socket ?hd
           = ?ws\<lparr>socket := Some (example_socket\<lparr>sock_timeout := Some 0, noDelay := True\<rparr>),
                 state := OPEN,
                 emitted := [Ev_upgrade (example_response (Some sp)), Ev_open],
                 seen := [CONNECTING, OPEN]\<rparr>"
    if "sp = ''chat'' \<or> sp = ''superchat''" for sp
    using that f
    by (auto simp: req_on_upgrade_def Let_def example_accept example_reply set_socket_def
        emit_def)
  show ?thesis
    by (simp add: u f)
qed


section \<open>Decoding: the header\<close>

lemma len_slice: "j \<le> k \<Longrightarrow> k \<le> len d \<Longrightarrow> len (buf_slice d j k) = k - j"
  by (simp add: buf_slice_def)

lemma buf_get_slice:
  assumes "j \<le> k" and "k \<le> len d" and "i < k - j"
  shows "buf_get h (buf_slice d j k) i = buf_get h d (j + i)"
proof -
  have "j + i < len d"
    using assms by arith
  then show ?thesis
    using assms by (simp add: buf_slice_def buf_get_def add.assoc)
qed

lemma Packet_header:
  assumes "2 \<le> len d"
  shows "Packet h d =
     (let fin_v = (buf_get h d 0 AND 0x80 = 0x80);
          rsv1_v = (buf_get h d 0 AND 0x40 = 0x40);
          opcode_v = unat (buf_get h d 0 AND 0x0f);
          mask_v = (buf_get h d 1 AND 0x80 = 0x80);
          length_v = unat (buf_get h d 1 AND 0x7f)
      in if 8 \<le> opcode_v \<and> 125 < length_v then
           Some (h, Inl (Error ''control frames must be less than 125 bytes.''))
         else if 8 \<le> opcode_v \<and> \<not> fin_v then
           Some (h, Inl (Error ''control frames must not be fragmented.''))
         else
           Packet_get_payload_length h
             \<lparr>state_p = (if length_v = 126 then GET_PAYLOAD_LENGTH_16
                         else if length_v = 127 then GET_PAYLOAD_LENGTH_64
                         else GET_MASK_KEY),
              data = (if 2 = len d then d else buf_slice d 2 (len d)),
              size_p = int (len d) - 2,
              fin = Some fin_v, rsv1 = Some rsv1_v, opcode = Some opcode_v,
              mask_p = Some mask_v, payload = None, payload_length = Some length_v,
              mask_key = None, close_code = None\<rparr>)"
proof -
  define p0 where "p0 = \<lparr>state_p = GET_HEADER, data = d, size_p = int (len d), fin = None,
      rsv1 = None, opcode = None, mask_p = None, payload = None, payload_length = None,
      mask_key = None, close_code = None\<rparr>"
  have s: "\<not> int (len d) < 2"
    using assms by simp
  show ?thesis
  proof (cases "len d = 2")
    case True
    then have c: "consume h p0 2 = Some (h, p0\<lparr>size_p := 0\<rparr>, d)"
      using consume_Some [of 2 p0 h] by (simp add: p0_def)
    show ?thesis
      unfolding Packet_def p0_def [symmetric] Let_def
      using s True by (simp add: p0_def [symmetric] c) (simp add: p0_def)
  next
    case False
    then have c: "consume h p0 2 = Some (h, p0\<lparr>size_p := int (len d) - 2,
              data := buf_slice d 2 (len d)\<rparr>, buf_slice d 0 2)"
      using assms consume_Some [of 2 p0 h] by (simp add: p0_def)
    have g: "buf_get h (buf_slice d 0 2) 0 = buf_get h d 0"
      "buf_get h (buf_slice d 0 2) (Suc 0) = buf_get h d (Suc 0)"
      using assms buf_get_slice [of 0 2 d 0 h] buf_get_slice [of 0 2 d 1 h] by simp_all
    show ?thesis
      unfolding Packet_def p0_def [symmetric] Let_def
      using s False by (simp add: p0_def [symmetric] c g) (simp add: p0_def)
  qed
qed

text \<open>
  Claim C3. A buffer of at least two bytes whose first byte gives an opcode of 8 or more,
  and whose 7-bit length exceeds 125 or whose fin bit is clear, makes the constructor throw
  (the length error first, else the fragmentation error): no packet exists, the data
  listener throws the same exception, and the connection emits nothing and is unchanged.
\<close>

theorem control_frame_legality:
  assumes "2 \<le> len d"
    and "8 \<le> unat (buf_get h d 0 AND 0x0f)"
    and "125 < unat (buf_get h d 1 AND 0x7f) \<or> buf_get h d 0 AND 0x80 \<noteq> 0x80"
  shows "Packet h d =
           Some (h, Inl (Error (if 125 < unat (buf_get h d 1 AND 0x7f)
                                then ''control frames must be less than 125 bytes.''
                                else ''control frames must not be fragmented.'')))
       \<and> socket_on_data rnd h ws d =
           Some (Some (Error (if 125 < unat (buf_get h d 1 AND 0x7f)
                              then ''control frames must be less than 125 bytes.''
                              else ''control frames must not be fragmented.'')), h, ws)"
proof -
  have "Packet h d =
           Some (h, Inl (Error (if 125 < unat (buf_get h d 1 AND 0x7f)
                                then ''control frames must be less than 125 bytes.''
                                else ''control frames must not be fragmented.'')))"
    using assms(2,3) by (auto simp: Packet_header [OF assms(1)] Let_def)
  then show ?thesis
    by (simp add: socket_on_data_def)
qed

lemma buf_get_buf_from:
  "buf_get (fst (buf_from h xs)) (snd (buf_from h xs)) i = (if i < length xs then xs ! i else 0)"
  by (simp add: buf_from_def allocUnsafe_def buf_copy_def buf_get_def)

lemma len_buf_from: "len (snd (buf_from h xs)) = length xs"
  by (simp add: buf_from_def allocUnsafe_def)

theorem control_frame_legality_witness:
  "2 \<le> len (snd (buf_from empty_heap [0x09, 0x00]))
   \<and> 8 \<le> unat (buf_get (fst (buf_from empty_heap [0x09, 0x00]))
                  (snd (buf_from empty_heap [0x09, 0x00])) 0 AND 0x0f)
   \<and> buf_get (fst (buf_from empty_heap [0x09, 0x00]))
                  (snd (buf_from empty_heap [0x09, 0x00])) 0 AND 0x80 \<noteq> 0x80
   \<and> Packet (fst (buf_from empty_heap [0x09, 0x00])) (snd (buf_from empty_heap [0x09, 0x00]))
       = Some (fst (buf_from empty_heap [0x09, 0x00]),
               Inl (Error ''control frames must not be fragmented.''))
   \<and> socket_on_data (\<lambda>_. 1) (fst (buf_from empty_heap [0x09, 0x00])) example_open
         (snd (buf_from empty_heap [0x09, 0x00]))
       = Some (Some (Error ''control frames must not be fragmented.''),
               fst (buf_from empty_heap [0x09, 0x00]), example_open)"
proof -
  let ?h = "fst (buf_from empty_heap [0x09, 0x00])"
  let ?d = "snd (buf_from empty_heap [0x09, 0x00])"
  have a: "2 \<le> len ?d" by (simp add: len_buf_from)
  have b: "8 \<le> unat (buf_get ?h ?d 0 AND 0x0f)" by (simp add: buf_get_buf_from)
  have c: "buf_get ?h ?d 0 AND 0x80 \<noteq> 0x80" by (simp add: buf_get_buf_from)
  have c': "125 < unat (buf_get ?h ?d 1 AND 0x7f) \<or> buf_get ?h ?d 0 AND 0x80 \<noteq> 0x80"
    using c by simp
  have e: "\<not> 125 < unat (buf_get ?h ?d 1 AND 0x7f)" by (simp add: buf_get_buf_from)
  show ?thesis
    using control_frame_legality [OF a b c', of "\<lambda>_. 1" example_open] a b c e by simp
qed


section \<open>Masking in place\<close>

lemma length_buf_bytes [simp]: "length (buf_bytes h b) = len b"
  by (simp add: buf_bytes_def)

lemma nth_buf_bytes [simp]: "i < len b \<Longrightarrow> buf_bytes h b ! i = buf_get h b i"
  by (simp add: buf_bytes_def)

lemma buf_get_xor_region_apart:
  assumes "apart b c" and "m \<le> len b"
  shows "buf_get (xor_region h b k m) c i = buf_get h c i"
  using assms by (auto simp: apart_def xor_region_def buf_get_def)

lemma buf_get_xor_region_same:
  assumes "m \<le> len b" and "i < len b"
  shows "buf_get (xor_region h b k m) b i
         = (if i < m then buf_get h b i XOR buf_get h k (i mod 4) else buf_get h b i)"
  using assms by (simp add: xor_region_def buf_get_def)

lemma xor_region_0: "xor_region h b k 0 = h"
proof -
  have "(mem h)(base b := (\<lambda>j. if byteOffset b \<le> j \<and> j < byteOffset b
              then mem h (base b) j XOR buf_get h k ((j - byteOffset b) mod 4)
              else mem h (base b) j)) = mem h"
    by (auto simp: fun_eq_iff)
  then show ?thesis
    by (simp add: xor_region_def)
qed

lemma xor_region_Suc:
  assumes "apart b k" and "m < len b"
  shows "buf_set (xor_region h b k m) b m
           (buf_get (xor_region h b k m) b m XOR buf_get (xor_region h b k m) k (m mod 4))
         = xor_region h b k (Suc m)"
proof -
  have k: "buf_get (xor_region h b k m) k (m mod 4) = buf_get h k (m mod 4)"
    using assms buf_get_xor_region_apart [of b k m h k "m mod 4"] by simp
  have b: "buf_get (xor_region h b k m) b m = buf_get h b m"
    using assms buf_get_xor_region_same [of m b m h k] by simp
  show ?thesis
    unfolding k b using assms
    by (auto simp: xor_region_def buf_set_def buf_get_def fun_eq_iff)
qed

lemma xor_loop:
  assumes "apart b k" and "m \<le> len b"
  shows "foldl (\<lambda>hh idx. buf_set hh b idx (buf_get hh b idx XOR buf_get hh k (idx mod 4)))
           h [0..<m] = xor_region h b k m"
  using assms(2)
proof (induction m)
  case 0
  then show ?case by (simp add: xor_region_0)
next
  case (Suc m)
  then show ?case
    using xor_region_Suc [OF assms(1), of m h] by simp
qed

lemma and_3_mod_4: "(i::nat) AND 3 = i mod 4"
proof -
  have "take_bit 2 i = i AND mask 2"
    by (rule take_bit_eq_mask)
  moreover have "take_bit 2 i = i mod 2 ^ 2"
    by (rule take_bit_eq_mod)
  moreover have "(mask 2 :: nat) = 3"
    by (simp add: mask_eq_exp_minus_1)
  ultimately show ?thesis by simp
qed

lemma buf_bytes_xor_region:
  assumes "apart b k" and "len k = 4"
  shows "buf_bytes (xor_region h b k (len b)) b = xor_mask (buf_bytes h k) (buf_bytes h b)"
proof (rule nth_equalityI)
  show "length (buf_bytes (xor_region h b k (len b)) b)
        = length (xor_mask (buf_bytes h k) (buf_bytes h b))"
    by (simp add: xor_mask_def)
next
  fix i
  assume "i < length (buf_bytes (xor_region h b k (len b)) b)"
  then have i: "i < len b" by simp
  have m: "i mod 4 < len k"
    using assms(2) by simp
  show "buf_bytes (xor_region h b k (len b)) b ! i
        = xor_mask (buf_bytes h k) (buf_bytes h b) ! i"
    using i m by (simp add: xor_mask_def buf_get_xor_region_same)
qed

lemma buf_bytes_xor_region_apart:
  assumes "apart b c"
  shows "buf_bytes (xor_region h b k (len b)) c = buf_bytes h c"
  using assms by (simp add: buf_bytes_def buf_get_xor_region_apart)

lemma xor_mask_twice: "xor_mask key (xor_mask key bs) = bs"
proof (rule nth_equalityI)
  show "length (xor_mask key (xor_mask key bs)) = length bs"
    by (simp add: xor_mask_def)
next
  fix i
  assume "i < length (xor_mask key (xor_mask key bs))"
  then have i: "i < length bs" by (simp add: xor_mask_def)
  have "(bs ! i XOR key ! (i mod 4)) XOR key ! (i mod 4) = bs ! i"
    by (simp add: xor.assoc)
  then show "xor_mask key (xor_mask key bs) ! i = bs ! i"
    using i by (simp add: xor_mask_def)
qed


section \<open>Buffers as byte lists\<close>


lemma fresh_simps [simp]:
  "fresh (buf_set h b i v) = fresh h"
  "fresh (buf_copy h b off xs) = fresh h"
  "fresh (xor_region h b k m) = fresh h"
  "fresh (fst (alloc h n)) = Suc (fresh h)"
  "fresh (fst (allocUnsafe h n)) = Suc (fresh h)"
  by (simp_all add: buf_set_def buf_copy_def xor_region_def alloc_def allocUnsafe_def)

lemma alloc_buffer [simp]:
  "snd (alloc h n) = \<lparr>base = fresh h, byteOffset = 0, len = n\<rparr>"
  "snd (allocUnsafe h n) = \<lparr>base = fresh h, byteOffset = 0, len = n\<rparr>"
  by (simp_all add: alloc_def allocUnsafe_def)

lemma buf_bytes_cong:
  assumes "\<And>i. i < len b \<Longrightarrow> buf_get h' b i = buf_get h b i"
  shows "buf_bytes h' b = buf_bytes h b"
  using assms by (simp add: buf_bytes_def)

lemma buf_bytes_buf_set_same: "buf_bytes (buf_set h b i v) b = (buf_bytes h b)[i := v]"
  by (rule nth_equalityI) (auto simp: buf_set_def buf_get_def nth_list_update)

lemma buf_bytes_buf_set_other:
  assumes "base c \<noteq> base b"
  shows "buf_bytes (buf_set h b i v) c = buf_bytes h c"
  using assms by (intro buf_bytes_cong) (simp add: buf_set_def buf_get_def)

lemma buf_bytes_alloc_new: "buf_bytes (fst (alloc h n)) (snd (alloc h n)) = replicate n 0"
  by (rule nth_equalityI) (simp_all add: alloc_def buf_get_def)

lemma buf_bytes_alloc_old:
  assumes "base c \<noteq> fresh h"
  shows "buf_bytes (fst (alloc h n)) c = buf_bytes h c"
  using assms by (intro buf_bytes_cong) (simp add: alloc_def buf_get_def)

lemma buf_bytes_allocUnsafe_old: "buf_bytes (fst (allocUnsafe h n)) c = buf_bytes h c"
  by (intro buf_bytes_cong) (simp add: allocUnsafe_def buf_get_def)

lemma buf_bytes_buf_copy_whole:
  assumes "length xs = len b"
  shows "buf_bytes (buf_copy h b 0 xs) b = xs"
  using assms by (intro nth_equalityI) (simp_all add: buf_copy_def buf_get_def)

lemma buf_bytes_buf_copy_other:
  assumes "base c \<noteq> base b"
  shows "buf_bytes (buf_copy h b off xs) c = buf_bytes h c"
  using assms by (intro buf_bytes_cong) (simp add: buf_copy_def buf_get_def)

lemma buf_concat_bytes:
  assumes "buf_concat h bs n = (h', out)" and "n = length (concat (map (buf_bytes h) bs))"
  shows "buf_bytes h' out = concat (map (buf_bytes h) bs)"
    and "out = \<lparr>base = fresh h, byteOffset = 0, len = n\<rparr>"
    and "fresh h' = Suc (fresh h)"
    and "base c \<noteq> fresh h \<Longrightarrow> buf_bytes h' c = buf_bytes h c"
proof -
  obtain h1 o1 where a: "alloc h n = (h1, o1)"
    by (cases "alloc h n")
  have o1: "o1 = \<lparr>base = fresh h, byteOffset = 0, len = n\<rparr>" and h1: "h1 = fst (alloc h n)"
    using a alloc_buffer(1) [of h n] by simp_all
  have e: "h' = buf_copy h1 o1 0 (concat (map (buf_bytes h) bs))" "out = o1"
    using assms(1) a by (auto simp: buf_concat_def)
  show "out = \<lparr>base = fresh h, byteOffset = 0, len = n\<rparr>"
    using e o1 by simp
  show "buf_bytes h' out = concat (map (buf_bytes h) bs)"
    unfolding e using assms(2) o1 by (intro buf_bytes_buf_copy_whole) simp
  show "fresh h' = Suc (fresh h)"
    unfolding e h1 by simp
  show "buf_bytes h' c = buf_bytes h c" if "base c \<noteq> fresh h"
    unfolding e using that o1 h1
    by (simp add: buf_bytes_buf_copy_other buf_bytes_alloc_old)
qed

lemma buf_from_bytes:
  assumes "buf_from h xs = (h', b)"
  shows "buf_bytes h' b = xs" and "b = \<lparr>base = fresh h, byteOffset = 0, len = length xs\<rparr>"
    and "fresh h' = Suc (fresh h)"
    and "base c \<noteq> fresh h \<Longrightarrow> buf_bytes h' c = buf_bytes h c"
proof -
  have e: "h' = buf_copy (fst (allocUnsafe h (length xs))) b 0 xs"
    "b = \<lparr>base = fresh h, byteOffset = 0, len = length xs\<rparr>"
    using assms by (auto simp: buf_from_def allocUnsafe_def)
  show "b = \<lparr>base = fresh h, byteOffset = 0, len = length xs\<rparr>"
    by (rule e(2))
  show "buf_bytes h' b = xs"
    unfolding e(1) using e(2) by (intro buf_bytes_buf_copy_whole) simp
  show "fresh h' = Suc (fresh h)"
    unfolding e(1) by simp
  show "buf_bytes h' c = buf_bytes h c" if "base c \<noteq> fresh h"
    unfolding e(1) using that e(2)
    by (simp add: buf_bytes_buf_copy_other buf_bytes_allocUnsafe_old)
qed


section \<open>Encoding: the bytes of a frame\<close>


lemma writeUInt16BE_bytes:
  assumes "v < 65536" and "off + 2 \<le> len b"
  shows "\<exists>h'. writeUInt16BE h b v off = Inr h' \<and> fresh h' = fresh h
           \<and> buf_bytes h' b = (buf_bytes h b)[off := of_nat (v div 256), off + 1 := of_nat v]
           \<and> (\<forall>c. base c \<noteq> base b \<longrightarrow> buf_bytes h' c = buf_bytes h c)"
  using assms
  by (simp add: writeUInt16BE_def buf_bytes_buf_set_same buf_bytes_buf_set_other)

lemma writeUInt32BE_bytes:
  assumes "v < 2 ^ 32" and "off + 4 \<le> len b"
  shows "\<exists>h'. writeUInt32BE h b v off = Inr h' \<and> fresh h' = fresh h
           \<and> buf_bytes h' b = (buf_bytes h b)[off := of_nat (v div 16777216),
                  off + 1 := of_nat (v div 65536), off + 2 := of_nat (v div 256),
                  off + 3 := of_nat v]
           \<and> (\<forall>c. base c \<noteq> base b \<longrightarrow> buf_bytes h' c = buf_bytes h c)"
  using assms
  by (simp add: writeUInt32BE_def buf_bytes_buf_set_same buf_bytes_buf_set_other)

lemma frame_write_length_bytes:
  assumes "L < 2 ^ 64" and "2 + ext_len L \<le> len dest"
  shows "\<exists>h'. frame_write_length h dest L = Inr (h', 2 + ext_len L) \<and> fresh h' = fresh h
           \<and> buf_bytes h' dest =
               (if L < 126 then (buf_bytes h dest)[1 := buf_get h dest 1 + of_nat L]
                else if L < 65536 then
                  (buf_bytes h dest)[1 := buf_get h dest 1 + 126,
                     2 := of_nat (L div 256), 3 := of_nat L]
                else
                  (buf_bytes h dest)[1 := buf_get h dest 1 + 127,
                     2 := of_nat (L div 2 ^ 32 div 16777216), 3 := of_nat (L div 2 ^ 32 div 65536),
                     4 := of_nat (L div 2 ^ 32 div 256), 5 := of_nat (L div 2 ^ 32),
                     6 := of_nat (L mod 2 ^ 32 div 16777216), 7 := of_nat (L mod 2 ^ 32 div 65536),
                     8 := of_nat (L mod 2 ^ 32 div 256), 9 := of_nat (L mod 2 ^ 32)])
           \<and> (\<forall>c. base c \<noteq> base dest \<longrightarrow> buf_bytes h' c = buf_bytes h c)"
proof -
  consider (small) "L < 126" | (medium) "126 \<le> L" "L < 65536" | (large) "65536 \<le> L"
    by linarith
  then show ?thesis
  proof cases
    case small
    then show ?thesis
      by (simp add: frame_write_length_def ext_len_def buf_bytes_buf_set_same
          buf_bytes_buf_set_other)
  next
    case medium
    define h1 where "h1 = buf_set h dest 1 (buf_get h dest 1 + 126)"
    have l: "2 + 2 \<le> len dest"
      using assms(2) medium by (simp add: ext_len_def)
    obtain h2 where w: "writeUInt16BE h1 dest L 2 = Inr h2" "fresh h2 = fresh h1"
      "buf_bytes h2 dest = (buf_bytes h1 dest)[2 := of_nat (L div 256), 2 + 1 := of_nat L]"
      "\<forall>c. base c \<noteq> base dest \<longrightarrow> buf_bytes h2 c = buf_bytes h1 c"
      using writeUInt16BE_bytes [OF medium(2) l, of h1] by blast
    show ?thesis
      using medium w
      by (simp add: frame_write_length_def ext_len_def Let_def h1_def [symmetric])
         (simp add: h1_def buf_bytes_buf_set_same buf_bytes_buf_set_other)
  next
    case large
    define h1 where "h1 = buf_set h dest 1 (buf_get h dest 1 + 127)"
    have l: "2 + 4 \<le> len dest" "6 + 4 \<le> len dest"
      using assms(2) large by (simp_all add: ext_len_def)
    have hi: "L div 2 ^ 32 < (2::nat) ^ 32"
      using assms(1) by (simp add: less_mult_imp_div_less)
    have lo: "L mod 2 ^ 32 < (2::nat) ^ 32"
      by simp
    obtain h2 where w2: "writeUInt32BE h1 dest (L div 2 ^ 32) 2 = Inr h2" "fresh h2 = fresh h1"
      "buf_bytes h2 dest = (buf_bytes h1 dest)[2 := of_nat (L div 2 ^ 32 div 16777216),
          2 + 1 := of_nat (L div 2 ^ 32 div 65536), 2 + 2 := of_nat (L div 2 ^ 32 div 256),
          2 + 3 := of_nat (L div 2 ^ 32)]"
      "\<forall>c. base c \<noteq> base dest \<longrightarrow> buf_bytes h2 c = buf_bytes h1 c"
      using writeUInt32BE_bytes [OF hi l(1), of h1] by blast
    obtain h3 where w3: "writeUInt32BE h2 dest (L mod 2 ^ 32) 6 = Inr h3" "fresh h3 = fresh h2"
      "buf_bytes h3 dest = (buf_bytes h2 dest)[6 := of_nat (L mod 2 ^ 32 div 16777216),
          6 + 1 := of_nat (L mod 2 ^ 32 div 65536), 6 + 2 := of_nat (L mod 2 ^ 32 div 256),
          6 + 3 := of_nat (L mod 2 ^ 32)]"
      "\<forall>c. base c \<noteq> base dest \<longrightarrow> buf_bytes h3 c = buf_bytes h2 c"
      using writeUInt32BE_bytes [OF lo l(2), of h2] by blast
    show ?thesis
      using large w2 w3
      by (simp add: frame_write_length_def ext_len_def Let_def h1_def [symmetric])
         (simp add: h1_def buf_bytes_buf_set_same buf_bytes_buf_set_other)
  qed
qed


lemma upt_4: "[0..<4] = [0, 1, 2, 3]"
  by (simp add: eval_nat_numeral upt_rec)

lemma frame_apply_mask_bytes:
  assumes "base pl \<noteq> base dest" and "base dest \<noteq> fresh h" and "base pl \<noteq> fresh h"
  shows "\<exists>h'. frame_apply_mask rnd h dest pl off (len pl) = (h', off + 4)
           \<and> fresh h' = Suc (fresh h)
           \<and> buf_bytes h' dest =
               (buf_bytes h dest)[off := rnd 0, off + 1 := rnd 1, off + 2 := rnd 2, off + 3 := rnd 3]
           \<and> buf_bytes h' pl = xor_mask (map rnd [0..<4]) (buf_bytes h pl)"
proof -
  define mk where "mk = \<lparr>base = fresh h, byteOffset = 0, len = 4\<rparr>"
  define h1 where "h1 = fst (alloc h 4)"
  have a: "alloc h 4 = (h1, mk)"
    by (simp add: h1_def mk_def alloc_def)
  define h2 where "h2 = foldl (\<lambda>hh idx. buf_set (buf_set hh mk idx (rnd idx))
                                  dest (off + idx) (rnd idx)) h1 [0..<4]"
  have m: "base mk = fresh h" "len mk = 4" "base dest \<noteq> base mk" "base pl \<noteq> base mk"
    using assms by (simp_all add: mk_def)
  have "replicate 4 (0::byte) = [0, 0, 0, 0]"
    by (simp add: eval_nat_numeral)
  then have b1: "buf_bytes h1 mk = [0, 0, 0, 0]"
    using buf_bytes_alloc_new [of h 4] unfolding a by simp
  have d1: "buf_bytes h1 dest = buf_bytes h dest" and p1: "buf_bytes h1 pl = buf_bytes h pl"
    using assms by (simp_all add: h1_def buf_bytes_alloc_old)
  have k2: "buf_bytes h2 mk = [rnd 0, rnd 1, rnd 2, rnd 3]"
    using m by (simp add: h2_def upt_4 buf_bytes_buf_set_same buf_bytes_buf_set_other b1)
  have k2': "buf_bytes h2 mk = map rnd [0..<4]"
    by (simp add: k2 upt_4)
  have d2: "buf_bytes h2 dest =
      (buf_bytes h dest)[off := rnd 0, off + 1 := rnd 1, off + 2 := rnd 2, off + 3 := rnd 3]"
    using m by (simp add: h2_def upt_4 buf_bytes_buf_set_same buf_bytes_buf_set_other d1)
  have p2: "buf_bytes h2 pl = buf_bytes h pl"
    using m assms(1)
    by (simp add: h2_def upt_4 buf_bytes_buf_set_same buf_bytes_buf_set_other p1)
  have f2: "fresh h2 = Suc (fresh h)"
    by (simp add: h2_def upt_4 h1_def)
  have ap: "apart pl mk" "apart pl dest"
    using m assms(1) by (simp_all add: apart_def)
  define h3 where "h3 = xor_region h2 pl mk (len pl)"
  have l: "foldl (\<lambda>hh idx. buf_set hh pl idx (buf_get hh pl idx XOR buf_get hh mk (idx mod 4)))
             h2 [0..<len pl] = h3"
    unfolding h3_def by (rule xor_loop [OF ap(1)]) simp
  have r: "frame_apply_mask rnd h dest pl off (len pl) = (h3, off + 4)"
    unfolding frame_apply_mask_def a Let_def prod.case h2_def [symmetric] l by simp
  have "buf_bytes h3 pl = xor_mask (map rnd [0..<4]) (buf_bytes h pl)"
    unfolding h3_def using buf_bytes_xor_region [OF ap(1) m(2), of h2] by (simp add: k2' p2)
  moreover have "buf_bytes h3 dest =
      (buf_bytes h dest)[off := rnd 0, off + 1 := rnd 1, off + 2 := rnd 2, off + 3 := rnd 3]"
    unfolding h3_def using buf_bytes_xor_region_apart [OF ap(2), of h2 mk] by (simp add: d2)
  moreover have "fresh h3 = Suc (fresh h)"
    by (simp add: h3_def f2)
  ultimately show ?thesis
    using r by simp
qed


lemma header_list:
  fixes b0 :: byte
  shows "(replicate 6 0)[0 := b0, 1 := 128, 1 := x, 2 := r0, 3 := r1, 4 := r2, 5 := r3]
         = [b0, x, r0, r1, r2, r3]"
    and "(replicate 8 0)[0 := b0, 1 := 128, 1 := x, 2 := e0, 3 := e1,
            4 := r0, 5 := r1, 6 := r2, 7 := r3]
         = [b0, x, e0, e1, r0, r1, r2, r3]"
    and "(replicate 14 0)[0 := b0, 1 := 128, 1 := x, 2 := e0, 3 := e1,
            4 := e2, 5 := e3, 6 := e4, 7 := e5, 8 := e6, 9 := e7,
            10 := r0, 11 := r1, 12 := r2, 13 := r3]
         = [b0, x, e0, e1, e2, e3, e4, e5, e6, e7, r0, r1, r2, r3]"
  by (simp_all add: eval_nat_numeral)

lemma frame_masked_bytes:
  assumes "base pl < fresh h" and "len pl < 2 ^ 64"
  shows "\<exists>h' out. frame rnd h opc pl fin_arg rsv1_arg True = Inr (h', out)
     \<and> buf_bytes h' pl = xor_mask (map rnd [0..<4]) (buf_bytes h pl)
     \<and> buf_bytes h' out = frame_header fin_arg opc (len pl) True @ map rnd [0..<4]
                             @ xor_mask (map rnd [0..<4]) (buf_bytes h pl)
     \<and> out = \<lparr>base = fresh h + 2, byteOffset = 0, len = 2 + ext_len (len pl) + 4 + len pl\<rparr>
     \<and> fresh h' = fresh h + 3"
proof -
  define L where "L = len pl"
  define n where "n = 2 + ext_len L + 4"
  define dest where "dest = \<lparr>base = fresh h, byteOffset = 0, len = n\<rparr>"
  define h1 where "h1 = fst (alloc h n)"
  define b0 :: byte where "b0 = of_nat ((if fin_arg then 128 else 0) + opc)"
  define h3 where "h3 = buf_set (buf_set h1 dest 0 b0) dest 1 128"
  have n': "2 + (if L < 126 then 0 else if L < 65536 then 2 else 8) + (if True then 4 else 0) = n"
    by (simp add: n_def ext_len_def)
  have a: "alloc h n = (h1, dest)"
    by (simp add: h1_def dest_def alloc_def)
  have dd: "base dest = fresh h" "len dest = n" "base pl \<noteq> base dest"
    using assms(1) by (simp_all add: dest_def)
  have d3: "buf_bytes h3 dest = (replicate n 0)[0 := b0, 1 := 128]"
    using buf_bytes_alloc_new [of h n] unfolding a
    by (simp add: h3_def buf_bytes_buf_set_same)
  have g3: "buf_get h3 dest 1 = 128"
    by (simp add: h3_def buf_set_def buf_get_def dest_def n_def)
  have p3: "buf_bytes h3 pl = buf_bytes h pl"
    using dd assms(1) by (simp add: h3_def h1_def buf_bytes_buf_set_other buf_bytes_alloc_old)
  have f3: "fresh h3 = Suc (fresh h)"
    by (simp add: h3_def h1_def)
  have le: "2 + ext_len L \<le> len dest"
    by (simp add: dd n_def)
  obtain h4 where w: "frame_write_length h3 dest L = Inr (h4, 2 + ext_len L)"
    "fresh h4 = fresh h3"
    "buf_bytes h4 dest =
               (if L < 126 then (buf_bytes h3 dest)[1 := buf_get h3 dest 1 + of_nat L]
                else if L < 65536 then
                  (buf_bytes h3 dest)[1 := buf_get h3 dest 1 + 126,
                     2 := of_nat (L div 256), 3 := of_nat L]
                else
                  (buf_bytes h3 dest)[1 := buf_get h3 dest 1 + 127,
                     2 := of_nat (L div 2 ^ 32 div 16777216), 3 := of_nat (L div 2 ^ 32 div 65536),
                     4 := of_nat (L div 2 ^ 32 div 256), 5 := of_nat (L div 2 ^ 32),
                     6 := of_nat (L mod 2 ^ 32 div 16777216), 7 := of_nat (L mod 2 ^ 32 div 65536),
                     8 := of_nat (L mod 2 ^ 32 div 256), 9 := of_nat (L mod 2 ^ 32)])"
    "\<forall>c. base c \<noteq> base dest \<longrightarrow> buf_bytes h4 c = buf_bytes h3 c"
    using frame_write_length_bytes [OF _ le, of h3] assms(2) unfolding L_def by blast
  have p4: "buf_bytes h4 pl = buf_bytes h pl"
    using w(4) dd(3) p3 by simp
  have c5: "base pl \<noteq> base dest" "base dest \<noteq> fresh h4" "base pl \<noteq> fresh h4"
    using assms(1) by (simp_all add: dd w(2) f3)
  obtain h5 where m: "frame_apply_mask rnd h4 dest pl (2 + ext_len L) (len pl)
                       = (h5, 2 + ext_len L + 4)"
    "fresh h5 = Suc (fresh h4)"
    "buf_bytes h5 dest = (buf_bytes h4 dest)[2 + ext_len L := rnd 0, 2 + ext_len L + 1 := rnd 1,
         2 + ext_len L + 2 := rnd 2, 2 + ext_len L + 3 := rnd 3]"
    "buf_bytes h5 pl = xor_mask (map rnd [0..<4]) (buf_bytes h4 pl)"
    using frame_apply_mask_bytes [OF c5, of rnd "2 + ext_len L"] by blast
  have d5: "buf_bytes h5 dest = frame_header fin_arg opc L True @ map rnd [0..<4]"
  proof -
    consider (small) "L < 126" | (medium) "126 \<le> L" "L < 65536" | (large) "65536 \<le> L"
      by linarith
    then show ?thesis
    proof cases
      case small
      then have "ext_len L = 0"
        by (simp add: ext_len_def)
      then have idx: "2 + ext_len L = 2" "(2::nat) + 4 = 6" "(2::nat) + 1 = 3"
        "(2::nat) + 2 = 4" "(2::nat) + 3 = 5"
        by simp_all
      have "buf_bytes h5 dest = [b0, 128 + of_nat L, rnd 0, rnd 1, rnd 2, rnd 3]"
        unfolding m(3) w(3) d3 g3 n_def using small
        by (simp only: if_True idx header_list(1))
      then show ?thesis
        using small by (simp add: frame_header_def upt_4 b0_def)
    next
      case medium
      then have nl: "\<not> L < 126" by simp
      have "ext_len L = 2"
        using medium by (simp add: ext_len_def)
      then have idx: "2 + ext_len L = 4" "(4::nat) + 4 = 8" "(4::nat) + 1 = 5"
        "(4::nat) + 2 = 6" "(4::nat) + 3 = 7"
        by simp_all
      have "buf_bytes h5 dest = [b0, 128 + 126, of_nat (L div 256), of_nat L,
                                  rnd 0, rnd 1, rnd 2, rnd 3]"
        unfolding m(3) w(3) d3 g3 n_def using medium(2) nl
        by (simp only: if_True if_False idx header_list(2))
      then show ?thesis
        using medium nl by (simp add: frame_header_def upt_4 b0_def)
    next
      case large
      then have nl: "\<not> L < 126" "\<not> L < 65536" by simp_all
      have "ext_len L = 8"
        using large by (simp add: ext_len_def)
      then have idx: "2 + ext_len L = 10" "(10::nat) + 4 = 14" "(10::nat) + 1 = 11"
        "(10::nat) + 2 = 12" "(10::nat) + 3 = 13"
        by simp_all
      have "buf_bytes h5 dest = [b0, 128 + 127,
              of_nat (L div 2 ^ 32 div 16777216), of_nat (L div 2 ^ 32 div 65536),
              of_nat (L div 2 ^ 32 div 256), of_nat (L div 2 ^ 32),
              of_nat (L mod 2 ^ 32 div 16777216), of_nat (L mod 2 ^ 32 div 65536),
              of_nat (L mod 2 ^ 32 div 256), of_nat (L mod 2 ^ 32),
              rnd 0, rnd 1, rnd 2, rnd 3]"
        unfolding m(3) w(3) d3 g3 n_def using nl
        by (simp only: if_False idx header_list(3))
      then show ?thesis
        using nl by (simp add: frame_header_def upt_4 b0_def be32_def)
    qed
  qed
  obtain h' out where c: "buf_concat h5 [dest, pl] (len dest + L) = (h', out)"
    by (cases "buf_concat h5 [dest, pl] (len dest + L)")
  have cl: "len dest + L = length (concat (map (buf_bytes h5) [dest, pl]))"
    by (simp add: L_def)
  note cb = buf_concat_bytes [OF c cl]
  have f5: "fresh h5 = fresh h + 2"
    by (simp add: m(2) w(2) f3)
  have fr: "frame rnd h opc pl fin_arg rsv1_arg True = Inr (h', out)"
    unfolding frame_def Let_def L_def [symmetric] n' a prod.case b0_def [symmetric]
    using w(1) m(1) c by (simp add: h3_def L_def)
  have "buf_bytes h' pl = xor_mask (map rnd [0..<4]) (buf_bytes h pl)"
    using cb(4) [of pl] assms(1) by (simp add: f5 m(4) p4)
  moreover have "buf_bytes h' out = frame_header fin_arg opc L True @ map rnd [0..<4]
                             @ xor_mask (map rnd [0..<4]) (buf_bytes h pl)"
    using cb(1) by (simp add: d5 m(4) p4)
  moreover have "out = \<lparr>base = fresh h + 2, byteOffset = 0, len = 2 + ext_len L + 4 + L\<rparr>"
    using cb(2) by (simp add: f5 dd n_def)
  moreover have "fresh h' = fresh h + 3"
    using cb(3) by (simp add: f5)
  ultimately show ?thesis
    using fr unfolding L_def by blast
qed


section \<open>The header size law\<close>

lemma header_list_plain:
  fixes b0 :: byte
  shows "(replicate 2 0)[0 := b0, 1 := 0, 1 := x] = [b0, x]"
    and "(replicate 4 0)[0 := b0, 1 := 0, 1 := x, 2 := e0, 3 := e1] = [b0, x, e0, e1]"
    and "(replicate 10 0)[0 := b0, 1 := 0, 1 := x, 2 := e0, 3 := e1,
            4 := e2, 5 := e3, 6 := e4, 7 := e5, 8 := e6, 9 := e7]
         = [b0, x, e0, e1, e2, e3, e4, e5, e6, e7]"
  by (simp_all add: eval_nat_numeral)

lemma frame_unmasked_bytes:
  assumes "base pl < fresh h" and "len pl < 2 ^ 64"
  shows "\<exists>h' out. frame rnd h opc pl fin_arg rsv1_arg False = Inr (h', out)
     \<and> buf_bytes h' pl = buf_bytes h pl
     \<and> buf_bytes h' out = frame_header fin_arg opc (len pl) False @ buf_bytes h pl
     \<and> out = \<lparr>base = fresh h + 1, byteOffset = 0, len = 2 + ext_len (len pl) + len pl\<rparr>
     \<and> fresh h' = fresh h + 2"
proof -
  define L where "L = len pl"
  define n where "n = 2 + ext_len L"
  define dest where "dest = \<lparr>base = fresh h, byteOffset = 0, len = n\<rparr>"
  define h1 where "h1 = fst (alloc h n)"
  define b0 :: byte where "b0 = of_nat ((if fin_arg then 128 else 0) + opc)"
  define h3 where "h3 = buf_set (buf_set h1 dest 0 b0) dest 1 0"
  have n': "2 + (if L < 126 then 0 else if L < 65536 then 2 else 8) + (if False then 4 else 0) = n"
    by (simp add: n_def ext_len_def)
  have a: "alloc h n = (h1, dest)"
    by (simp add: h1_def dest_def alloc_def)
  have dd: "base dest = fresh h" "len dest = n" "base pl \<noteq> base dest"
    using assms(1) by (simp_all add: dest_def)
  have d3: "buf_bytes h3 dest = (replicate n 0)[0 := b0, 1 := 0]"
    using buf_bytes_alloc_new [of h n] unfolding a
    by (simp add: h3_def buf_bytes_buf_set_same)
  have g3: "buf_get h3 dest 1 = 0"
    by (simp add: h3_def buf_set_def buf_get_def dest_def n_def)
  have p3: "buf_bytes h3 pl = buf_bytes h pl"
    using dd assms(1) by (simp add: h3_def h1_def buf_bytes_buf_set_other buf_bytes_alloc_old)
  have f3: "fresh h3 = Suc (fresh h)"
    by (simp add: h3_def h1_def)
  have le: "2 + ext_len L \<le> len dest"
    by (simp add: dd n_def)
  obtain h4 where w: "frame_write_length h3 dest L = Inr (h4, 2 + ext_len L)"
    "fresh h4 = fresh h3"
    "buf_bytes h4 dest =
               (if L < 126 then (buf_bytes h3 dest)[1 := buf_get h3 dest 1 + of_nat L]
                else if L < 65536 then
                  (buf_bytes h3 dest)[1 := buf_get h3 dest 1 + 126,
                     2 := of_nat (L div 256), 3 := of_nat L]
                else
                  (buf_bytes h3 dest)[1 := buf_get h3 dest 1 + 127,
                     2 := of_nat (L div 2 ^ 32 div 16777216), 3 := of_nat (L div 2 ^ 32 div 65536),
                     4 := of_nat (L div 2 ^ 32 div 256), 5 := of_nat (L div 2 ^ 32),
                     6 := of_nat (L mod 2 ^ 32 div 16777216), 7 := of_nat (L mod 2 ^ 32 div 65536),
                     8 := of_nat (L mod 2 ^ 32 div 256), 9 := of_nat (L mod 2 ^ 32)])"
    "\<forall>c. base c \<noteq> base dest \<longrightarrow> buf_bytes h4 c = buf_bytes h3 c"
    using frame_write_length_bytes [OF _ le, of h3] assms(2) unfolding L_def by blast
  have p4: "buf_bytes h4 pl = buf_bytes h pl"
    using w(4) dd(3) p3 by simp
  have d4: "buf_bytes h4 dest = frame_header fin_arg opc L False"
  proof -
    consider (small) "L < 126" | (medium) "126 \<le> L" "L < 65536" | (large) "65536 \<le> L"
      by linarith
    then show ?thesis
    proof cases
      case small
      then have idx: "2 + ext_len L = 2"
        by (simp add: ext_len_def)
      have "buf_bytes h4 dest = [b0, 0 + of_nat L]"
        unfolding w(3) d3 g3 n_def using small
        by (simp only: if_True idx header_list_plain(1))
      then show ?thesis
        using small by (simp add: frame_header_def b0_def)
    next
      case medium
      then have nl: "\<not> L < 126" by simp
      have idx: "2 + ext_len L = 4"
        using medium by (simp add: ext_len_def)
      have "buf_bytes h4 dest = [b0, 0 + 126, of_nat (L div 256), of_nat L]"
        unfolding w(3) d3 g3 n_def using medium(2) nl
        by (simp only: if_True if_False idx header_list_plain(2))
      then show ?thesis
        using medium nl by (simp add: frame_header_def b0_def)
    next
      case large
      then have nl: "\<not> L < 126" "\<not> L < 65536" by simp_all
      have idx: "2 + ext_len L = 10"
        using large by (simp add: ext_len_def)
      have "buf_bytes h4 dest = [b0, 0 + 127,
              of_nat (L div 2 ^ 32 div 16777216), of_nat (L div 2 ^ 32 div 65536),
              of_nat (L div 2 ^ 32 div 256), of_nat (L div 2 ^ 32),
              of_nat (L mod 2 ^ 32 div 16777216), of_nat (L mod 2 ^ 32 div 65536),
              of_nat (L mod 2 ^ 32 div 256), of_nat (L mod 2 ^ 32)]"
        unfolding w(3) d3 g3 n_def using nl
        by (simp only: if_False idx header_list_plain(3))
      then show ?thesis
        using nl by (simp add: frame_header_def b0_def be32_def)
    qed
  qed
  obtain h' out where c: "buf_concat h4 [dest, pl] (len dest + L) = (h', out)"
    by (cases "buf_concat h4 [dest, pl] (len dest + L)")
  have cl: "len dest + L = length (concat (map (buf_bytes h4) [dest, pl]))"
    by (simp add: L_def)
  note cb = buf_concat_bytes [OF c cl]
  have f4: "fresh h4 = fresh h + 1"
    by (simp add: w(2) f3)
  have fr: "frame rnd h opc pl fin_arg rsv1_arg False = Inr (h', out)"
    unfolding frame_def Let_def L_def [symmetric] n' a prod.case b0_def [symmetric]
    using w(1) c by (simp add: h3_def L_def)
  have "buf_bytes h' pl = buf_bytes h pl"
    using cb(4) [of pl] assms(1) by (simp add: f4 p4)
  moreover have "buf_bytes h' out = frame_header fin_arg opc L False @ buf_bytes h pl"
    using cb(1) by (simp add: d4 p4)
  moreover have "out = \<lparr>base = fresh h + 1, byteOffset = 0, len = 2 + ext_len L + L\<rparr>"
    using cb(2) by (simp add: f4 dd n_def)
  moreover have "fresh h' = fresh h + 2"
    using cb(3) by (simp add: f4)
  ultimately show ?thesis
    using fr unfolding L_def by blast
qed

lemma length_frame_header:
  "length (frame_header fin_arg opc L mask_arg) = 2 + ext_len L"
  by (simp add: frame_header_def ext_len_def be32_def)

text \<open>
  Claim C9. For a payload of \<open>L\<close> bytes that lies in the store (a Buffer: fewer than
  \<open>2 ^ 64\<close> bytes) the call returns a frame made of three parts in this order: the header
  with its length extension, the 4 bytes of the mask key exactly when \<^verbatim>\<open>mask\<close> is set,
  and the \<open>L\<close> bytes of the payload as the call leaves them (XORed with the key when
  \<^verbatim>\<open>mask\<close> is set, untouched otherwise). The header with its extension is the byte list
  \<open>frame_header\<close>; it occupies 2 bytes for \<open>L < 126\<close>, 4 bytes for
  \<open>126 \<le> L < 65536\<close> and 10 bytes from 65536 on. The frame has that many bytes, plus
  4 exactly when \<^verbatim>\<open>mask\<close> is set, plus \<open>L\<close>.
\<close>

theorem frame_header_size_law:
  assumes "base pl < fresh h" and "len pl < 2 ^ 64"
  shows "\<exists>h' out. frame rnd h opc pl fin_arg rsv1_arg mask_arg = Inr (h', out)
     \<and> buf_bytes h' out = frame_header fin_arg opc (len pl) mask_arg
                             @ (if mask_arg then map rnd [0..<4] else []) @ buf_bytes h' pl
     \<and> length (frame_header fin_arg opc (len pl) mask_arg)
         = (if len pl < 126 then 2 else if len pl < 65536 then 4 else 10)
     \<and> length (if mask_arg then map rnd [0..<4] else []) = (if mask_arg then 4 else 0)
     \<and> length (buf_bytes h' pl) = len pl
     \<and> len out = (if len pl < 126 then 2 else if len pl < 65536 then 4 else 10)
                   + (if mask_arg then 4 else 0) + len pl
     \<and> buf_bytes h' pl = (if mask_arg then xor_mask (map rnd [0..<4]) (buf_bytes h pl)
                           else buf_bytes h pl)"
proof (cases mask_arg)
  case True
  obtain h' out where f: "frame rnd h opc pl fin_arg rsv1_arg True = Inr (h', out)"
    "buf_bytes h' pl = xor_mask (map rnd [0..<4]) (buf_bytes h pl)"
    "buf_bytes h' out = frame_header fin_arg opc (len pl) True @ map rnd [0..<4]
                             @ xor_mask (map rnd [0..<4]) (buf_bytes h pl)"
    "out = \<lparr>base = fresh h + 2, byteOffset = 0, len = 2 + ext_len (len pl) + 4 + len pl\<rparr>"
    using frame_masked_bytes [OF assms, of rnd opc fin_arg rsv1_arg] by blast
  show ?thesis
    using True f by (simp add: length_frame_header ext_len_def)
next
  case False
  obtain h' out where f: "frame rnd h opc pl fin_arg rsv1_arg False = Inr (h', out)"
    "buf_bytes h' pl = buf_bytes h pl"
    "buf_bytes h' out = frame_header fin_arg opc (len pl) False @ buf_bytes h pl"
    "out = \<lparr>base = fresh h + 1, byteOffset = 0, len = 2 + ext_len (len pl) + len pl\<rparr>"
    using frame_unmasked_bytes [OF assms, of rnd opc fin_arg rsv1_arg] by blast
  show ?thesis
    using False f by (simp add: length_frame_header ext_len_def)
qed

lemma upt_2: "[0..<2] = [0, 1]"
  by (simp add: eval_nat_numeral upt_rec)

theorem frame_header_size_law_witness:
  "base (snd (buf_from empty_heap [0x48, 0x69])) < fresh (fst (buf_from empty_heap [0x48, 0x69]))
   \<and> len (snd (buf_from empty_heap [0x48, 0x69])) < 2 ^ 64
   \<and> (\<exists>h' out. frame (\<lambda>_. 7) (fst (buf_from empty_heap [0x48, 0x69])) 1
                   (snd (buf_from empty_heap [0x48, 0x69])) True False True = Inr (h', out)
          \<and> buf_bytes h' out = [0x81, 0x82, 7, 7, 7, 7, 0x4F, 0x6E]
          \<and> len out = 8
          \<and> buf_bytes h' (snd (buf_from empty_heap [0x48, 0x69])) = [0x4F, 0x6E])
   \<and> (\<exists>h' out. frame (\<lambda>_. 7) \<lparr>mem = (\<lambda>_ _. 0), fresh = 1\<rparr> 2
                   \<lparr>base = 0, byteOffset = 0, len = 70000\<rparr> True False False = Inr (h', out)
          \<and> take 10 (buf_bytes h' out) = [0x82, 127, 0, 0, 0, 0, 0, 1, 0x11, 0x70]
          \<and> len out = 70010)"
proof -
  let ?h = "fst (buf_from empty_heap [0x48, 0x69])"
  let ?pl = "snd (buf_from empty_heap [0x48, 0x69])"
  have b: "buf_bytes ?h ?pl = [0x48, 0x69]"
    by (rule buf_from_bytes(1) [of empty_heap]) simp
  have a: "base ?pl < fresh ?h" "len ?pl < 2 ^ 64"
    by (simp_all add: buf_from_def allocUnsafe_def empty_heap_def)
  have l: "len ?pl = 2"
    by (simp add: buf_from_def allocUnsafe_def)
  have x: "xor_mask [7, 7, 7, 7] [0x48, 0x69] = [0x4F, 0x6E :: byte]"
    by (simp add: xor_mask_def upt_2)
  have c: "base \<lparr>base = 0, byteOffset = 0, len = 70000\<rparr> < fresh \<lparr>mem = (\<lambda>_ _. 0), fresh = 1\<rparr>"
    "len \<lparr>base = 0, byteOffset = 0, len = 70000\<rparr> < 2 ^ 64"
    by simp_all
  have w: "(273::byte) = 17" "(70000::byte) = 112"
    by simp_all
  have "\<exists>h' out. frame (\<lambda>_. 7) ?h 1 ?pl True False True = Inr (h', out)
          \<and> buf_bytes h' out = [0x81, 0x82, 7, 7, 7, 7, 0x4F, 0x6E]
          \<and> len out = 8
          \<and> buf_bytes h' ?pl = [0x4F, 0x6E]"
    using frame_header_size_law [OF a, of "\<lambda>_. 7" 1 True False True]
    by (auto simp: l b x upt_4 frame_header_def)
  moreover have "\<exists>h' out. frame (\<lambda>_. 7) \<lparr>mem = (\<lambda>_ _. 0), fresh = 1\<rparr> 2
                   \<lparr>base = 0, byteOffset = 0, len = 70000\<rparr> True False False = Inr (h', out)
          \<and> take 10 (buf_bytes h' out) = [0x82, 127, 0, 0, 0, 0, 0, 1, 0x11, 0x70]
          \<and> len out = 70010"
    using frame_header_size_law [OF c, of "\<lambda>_. 7" 2 True False False] w
    by (auto simp: frame_header_def be32_def)
  ultimately show ?thesis
    using a by blast
qed


section \<open>Decoding: the stages\<close>

lemma buf_slice_eq:
  assumes "j \<le> k" and "k \<le> len d"
  shows "buf_slice d j k = \<lparr>base = base d, byteOffset = byteOffset d + j, len = k - j\<rparr>"
  using assms by (simp add: buf_slice_def)

lemma advance_fields [simp]:
  "size_p (advance p n) = size_p p - int n"
  "state_p (advance p n) = state_p p"
  "fin (advance p n) = fin p"
  "rsv1 (advance p n) = rsv1 p"
  "opcode (advance p n) = opcode p"
  "mask_p (advance p n) = mask_p p"
  "payload (advance p n) = payload p"
  "payload_length (advance p n) = payload_length p"
  "mask_key (advance p n) = mask_key p"
  "close_code (advance p n) = close_code p"
  by (simp_all add: advance_def)

lemma pinv_update [simp]:
  "pinv d c (p\<lparr>state_p := s\<rparr>) = pinv d c p"
  "pinv d c (p\<lparr>mask_key := k\<rparr>) = pinv d c p"
  "pinv d c (p\<lparr>payload_length := n\<rparr>) = pinv d c p"
  "pinv d c (p\<lparr>payload := b\<rparr>) = pinv d c p"
  by (simp_all add: pinv_def)

lemma consume_pinv:
  assumes "pinv d c p" and "0 < n" and "int n \<le> size_p p"
  shows "consume h p n = Some (h, advance p n, buf_slice d c (c + n))"
    and "pinv d (c + n) (advance p n)"
proof -
  have s: "size_p p = int (len d - c)" "c \<le> len d" "data p = buf_slice d c (len d)"
    using assms by (auto simp: pinv_def)
  have l: "len (data p) = len d - c" "c + n \<le> len d"
    using s assms(3) by (simp_all add: buf_slice_def)
  have e: "size_p p \<le> int (len (data p))"
    using s l by simp
  have b: "(if n = len (data p) then data p else buf_slice (data p) 0 n) = buf_slice d c (c + n)"
    using s l by (auto simp: buf_slice_def)
  show "consume h p n = Some (h, advance p n, buf_slice d c (c + n))"
    using consume_Some [OF assms(3) e, of h] b by (simp add: advance_def)
  show "pinv d (c + n) (advance p n)"
    using s l assms(2) by (auto simp: pinv_def advance_def buf_slice_def)
qed

lemma Packet_header_pinv:
  assumes "2 \<le> len d"
  shows "pinv d 2 \<lparr>state_p = s, data = (if 2 = len d then d else buf_slice d 2 (len d)),
              size_p = int (len d) - 2, fin = a1, rsv1 = a2, opcode = a3,
              mask_p = a4, payload = a5, payload_length = a6,
              mask_key = a7, close_code = a8\<rparr>"
  using assms by (auto simp: pinv_def)

lemma length16:
  assumes "pinv d c p" and "state_p p = GET_PAYLOAD_LENGTH_16" and "2 \<le> size_p p"
  shows "Packet_get_payload_length h p =
           Packet_get_mask_key h
             ((advance p 2)\<lparr>payload_length :=
                  Some (unat (buf_get h d c) * 256 + unat (buf_get h d (c + 1))),
                state_p := GET_MASK_KEY\<rparr>)"
proof -
  define b where "b = buf_slice d c (c + 2)"
  have c2: "c + 2 \<le> len d"
    using assms(1,3) by (simp add: pinv_def)
  have g: "buf_get h b 0 = buf_get h d c" "buf_get h b (0 + 1) = buf_get h d (c + 1)"
    unfolding b_def
    using buf_get_slice [of c "c + 2" d 0 h] buf_get_slice [of c "c + 2" d 1 h] c2 by simp_all
  have l: "\<not> len b < 0 + 2"
    using c2 by (simp add: b_def buf_slice_def)
  have k: "consume h p 2 = Some (h, advance p 2, b)"
    unfolding b_def using consume_pinv(1) [OF assms(1), of 2 h] assms(3) by simp
  have r: "readUInt16BE h b 0 = Inr (unat (buf_get h d c) * 256 + unat (buf_get h d (c + 1)))"
    unfolding readUInt16BE_def g using l by simp
  show ?thesis
    using assms(2,3) by (simp add: Packet_get_payload_length_def k r)
qed

lemma length64:
  assumes "pinv d c p" and "state_p p = GET_PAYLOAD_LENGTH_64" and "8 \<le> size_p p"
  shows "Packet_get_payload_length h p =
           Packet_get_mask_key h
             ((advance p 8)\<lparr>payload_length :=
                  Some (round_double
                     ((unat (buf_get h d c) * 16777216 + unat (buf_get h d (c + 1)) * 65536
                         + unat (buf_get h d (c + 2)) * 256 + unat (buf_get h d (c + 3))) * 2 ^ 32
                        + (unat (buf_get h d (c + 4)) * 16777216
                           + unat (buf_get h d (c + 5)) * 65536
                           + unat (buf_get h d (c + 6)) * 256 + unat (buf_get h d (c + 7))))),
                state_p := GET_MASK_KEY\<rparr>)"
proof -
  define b where "b = buf_slice d c (c + 8)"
  have c8: "c + 8 \<le> len d"
    using assms(1,3) by (simp add: pinv_def)
  have g: "buf_get h b i = buf_get h d (c + i)" if "i < 8" for i
    unfolding b_def using buf_get_slice [of c "c + 8" d i h] c8 that by simp
  have l: "\<not> len b < 0 + 4" "\<not> len b < 4 + 4"
    using c8 by (simp_all add: b_def buf_slice_def)
  have k: "consume h p 8 = Some (h, advance p 8, b)"
    unfolding b_def using consume_pinv(1) [OF assms(1), of 8 h] assms(3) by simp
  have r1: "readUInt32BE h b 0 = Inr (unat (buf_get h d c) * 16777216
              + unat (buf_get h d (c + 1)) * 65536
              + unat (buf_get h d (c + 2)) * 256 + unat (buf_get h d (c + 3)))"
    unfolding readUInt32BE_def using l(1) by (simp add: g)
  have r2: "readUInt32BE h b 4 = Inr (unat (buf_get h d (c + 4)) * 16777216
              + unat (buf_get h d (c + 5)) * 65536
              + unat (buf_get h d (c + 6)) * 256 + unat (buf_get h d (c + 7)))"
    unfolding readUInt32BE_def using l(2) by (simp add: g)
  show ?thesis
    using assms(2,3) by (simp add: Packet_get_payload_length_def k r1 r2)
qed

lemma length7:
  assumes "state_p p = GET_MASK_KEY"
  shows "Packet_get_payload_length h p = Packet_get_mask_key h p"
  using assms by (simp add: Packet_get_payload_length_def)

lemma mask_key_masked:
  assumes "pinv d c p" and "state_p p = GET_MASK_KEY" and "mask_p p = Some True"
    and "4 \<le> size_p p"
  shows "Packet_get_mask_key h p =
           Packet_get_payload h
             ((advance p 4)\<lparr>mask_key := Some (buf_slice d c (c + 4)), state_p := GET_PAYLOAD\<rparr>)"
proof -
  define b where "b = buf_slice d c (c + 4)"
  have k: "consume h p 4 = Some (h, advance p 4, b)"
    unfolding b_def using consume_pinv(1) [OF assms(1), of 4 h] assms(4) by simp
  show ?thesis
    using assms(2-4) by (simp add: Packet_get_mask_key_def k b_def)
qed

lemma mask_key_unmasked:
  assumes "state_p p = GET_MASK_KEY" and "mask_p p = Some False"
  shows "Packet_get_mask_key h p = Packet_get_payload h (p\<lparr>state_p := GET_PAYLOAD\<rparr>)"
  using assms by (simp add: Packet_get_mask_key_def)

lemma payload_unmasked:
  assumes "pinv d c p" and "state_p p = GET_PAYLOAD" and "payload_length p = Some n"
    and "0 < n" and "int n \<le> size_p p" and "mask_key p = None"
  shows "Packet_get_payload h p
         = Some (h, finish h (advance p n) (buf_slice d c (c + n)) n)"
proof -
  define b where "b = buf_slice d c (c + n)"
  have cn: "c + n \<le> len d"
    using assms(1,5) by (simp add: pinv_def)
  have l: "len b = n"
    using cn by (simp add: b_def buf_slice_def)
  have k: "consume h p n = Some (h, advance p n, b)"
    unfolding b_def using consume_pinv(1) [OF assms(1,4,5), of h] by simp
  have r: "readUInt16BE h b 0
           = (if 2 \<le> n then Inr (unat (buf_get h b 0) * 256 + unat (buf_get h b 1))
              else Inl RangeError)"
    using l by (auto simp: readUInt16BE_def)
  have s: "\<not> size_p p < int n"
    using assms(5) by simp
  have a: "n = 1 \<or> 2 \<le> n"
    using assms(4) by arith
  show ?thesis
    unfolding b_def [symmetric]
    using assms(2,3,4,6) s k a
    by (simp add: Packet_get_payload_def Let_def finish_def r)
qed

lemma xor_mask_zero:
  assumes "\<forall>i<4. key ! i = 0"
  shows "xor_mask key bs = bs"
proof (rule nth_equalityI)
  show "length (xor_mask key bs) = length bs"
    by (simp add: xor_mask_def)
next
  fix i
  assume "i < length (xor_mask key bs)"
  then have i: "i < length bs" by (simp add: xor_mask_def)
  have "key ! (i mod 4) = 0"
    using assms by simp
  then show "xor_mask key bs ! i = bs ! i"
    using i by (simp add: xor_mask_def)
qed

lemma payload_masked:
  assumes "pinv d c p" and "state_p p = GET_PAYLOAD" and "payload_length p = Some n"
    and "0 < n" and "int n \<le> size_p p"
    and "mask_p p = Some True" and "mask_key p = Some (buf_slice d ck (ck + 4))"
    and "ck + 4 \<le> c"
  shows "\<exists>h2. Packet_get_payload h p
              = Some (h2, finish h2 (advance p n) (buf_slice d c (c + n)) n)
          \<and> buf_bytes h2 (buf_slice d c (c + n))
              = xor_mask (buf_bytes h (buf_slice d ck (ck + 4))) (buf_bytes h (buf_slice d c (c + n)))
          \<and> fresh h2 = fresh h"
proof -
  define b where "b = buf_slice d c (c + n)"
  define k where "k = buf_slice d ck (ck + 4)"
  have cn: "c + n \<le> len d"
    using assms(1,5) by (simp add: pinv_def)
  have l: "len b = n" "len k = 4"
    using cn assms(8) by (simp_all add: b_def k_def buf_slice_def)
  have ap: "apart b k"
    using cn assms(8) by (simp add: apart_def b_def k_def buf_slice_def)
  have co: "consume h p n = Some (h, advance p n, b)"
    unfolding b_def using consume_pinv(1) [OF assms(1,4,5), of h] by simp
  define z where "z = (buf_get h k 0 OR buf_get h k 1 OR buf_get h k 2 OR buf_get h k 3)"
  define h2 where "h2 = (if z = 0 then h else xor_region h b k n)"
  have lp: "foldl (\<lambda>hh idx. buf_set hh b idx (buf_get hh b idx XOR buf_get hh k (idx AND 3)))
             h [0..<len b] = xor_region h b k n"
    using xor_loop [OF ap, of n h] l by (simp add: and_3_mod_4)
  have r: "readUInt16BE hh b 0
           = (if 2 \<le> n then Inr (unat (buf_get hh b 0) * 256 + unat (buf_get hh b 1))
              else Inl RangeError)" for hh
    using l by (auto simp: readUInt16BE_def)
  have s: "\<not> size_p p < int n"
    using assms(5) by simp
  have a: "n = 1 \<or> 2 \<le> n"
    using assms(4) by arith
  have mk: "mask_key p = Some k"
    using assms(7) by (simp add: k_def)
  have p: "Packet_get_payload h p = Some (h2, finish h2 (advance p n) b n)"
    using assms(2,3,4,6) mk s co a
    by (simp add: Packet_get_payload_def Let_def finish_def r lp h2_def z_def)
  have bytes: "buf_bytes h2 b = xor_mask (buf_bytes h k) (buf_bytes h b)"
  proof (cases "z = 0")
    case True
    then have "buf_get h k 0 = 0 \<and> buf_get h k 1 = 0 \<and> buf_get h k 2 = 0 \<and> buf_get h k 3 = 0"
      by (simp add: z_def or_eq_0_iff)
    then have "buf_bytes h k ! i = 0" if "i < 4" for i
    proof -
      have "i = 0 \<or> i = 1 \<or> i = 2 \<or> i = 3"
        using that by arith
      then show ?thesis
        using \<open>buf_get h k 0 = 0 \<and> buf_get h k 1 = 0 \<and> buf_get h k 2 = 0 \<and> buf_get h k 3 = 0\<close>
          l(2) by auto
    qed
    then have "xor_mask (buf_bytes h k) (buf_bytes h b) = buf_bytes h b"
      by (intro xor_mask_zero) simp
    then show ?thesis
      using True by (simp add: h2_def)
  next
    case False
    then show ?thesis
      using buf_bytes_xor_region [OF ap l(2), of h] l by (simp add: h2_def)
  qed
  have "fresh h2 = fresh h"
    by (simp add: h2_def)
  then show ?thesis
    using p bytes unfolding b_def k_def by blast
qed


section \<open>Decoding: a complete frame\<close>

lemma finish_fields:
  assumes "finish h p b n = Inr pk"
  shows "opcode pk = opcode p" and "fin pk = fin p" and "rsv1 pk = rsv1 p"
    and "mask_p pk = mask_p p" and "payload_length pk = payload_length p"
    and "mask_key pk = mask_key p" and "state_p pk = COMPLETE"
  using assms by (auto simp: finish_def split: if_splits)

lemma payload_stage:
  assumes "pinv d c p" and "state_p p = GET_MASK_KEY" and "mask_p p = Some m"
    and "payload_length p = Some L" and "mask_key p = None" and "0 < L"
    and "int ((if m then 4 else 0) + L) \<le> size_p p"
  shows "\<exists>h2 p'. Packet_get_mask_key h p
            = Some (h2, finish h2 p' (buf_slice d (c + (if m then 4 else 0))
                                        (c + (if m then 4 else 0) + L)) L)
         \<and> fresh h2 = fresh h
         \<and> buf_bytes h2 (buf_slice d (c + (if m then 4 else 0)) (c + (if m then 4 else 0) + L))
             = (if m then xor_mask (buf_bytes h (buf_slice d c (c + 4)))
                            (buf_bytes h (buf_slice d (c + 4) (c + 4 + L)))
                else buf_bytes h (buf_slice d c (c + L)))
         \<and> (\<not> m \<longrightarrow> h2 = h)
         \<and> opcode p' = opcode p \<and> fin p' = fin p \<and> rsv1 p' = rsv1 p \<and> mask_p p' = Some m
         \<and> payload_length p' = Some L \<and> close_code p' = close_code p"
proof (cases m)
  case True
  define p1 where "p1 = (advance p 4)\<lparr>mask_key := Some (buf_slice d c (c + 4)),
                                       state_p := GET_PAYLOAD\<rparr>"
  have s4: "4 \<le> size_p p"
    using assms(7) True by simp
  have k: "Packet_get_mask_key h p = Packet_get_payload h p1"
    unfolding p1_def using mask_key_masked [OF assms(1,2) _ s4, of h] assms(3) True by simp
  have i1: "pinv d (c + 4) p1"
    unfolding p1_def using consume_pinv(2) [OF assms(1), of 4] s4 by simp
  have f1: "state_p p1 = GET_PAYLOAD" "payload_length p1 = Some L" "mask_p p1 = Some True"
    "mask_key p1 = Some (buf_slice d c (c + 4))" "int L \<le> size_p p1"
    using assms(3,4,7) True by (simp_all add: p1_def)
  obtain h2 where r: "Packet_get_payload h p1
              = Some (h2, finish h2 (advance p1 L) (buf_slice d (c + 4) (c + 4 + L)) L)"
    "buf_bytes h2 (buf_slice d (c + 4) (c + 4 + L))
       = xor_mask (buf_bytes h (buf_slice d c (c + 4))) (buf_bytes h (buf_slice d (c + 4) (c + 4 + L)))"
    "fresh h2 = fresh h"
    using payload_masked [OF i1 f1(1,2) assms(6) f1(5,3,4), of h] by auto
  have "opcode (advance p1 L) = opcode p \<and> fin (advance p1 L) = fin p
      \<and> rsv1 (advance p1 L) = rsv1 p \<and> mask_p (advance p1 L) = Some m
      \<and> payload_length (advance p1 L) = Some L \<and> close_code (advance p1 L) = close_code p"
    using assms(3,4) by (simp add: p1_def)
  then show ?thesis
    using True k r by auto
next
  case False
  define p1 where "p1 = p\<lparr>state_p := GET_PAYLOAD\<rparr>"
  have k: "Packet_get_mask_key h p = Packet_get_payload h p1"
    unfolding p1_def using mask_key_unmasked [OF assms(2), of h] assms(3) False by simp
  have i1: "pinv d c p1"
    unfolding p1_def using assms(1) by simp
  have f1: "state_p p1 = GET_PAYLOAD" "payload_length p1 = Some L" "int L \<le> size_p p1"
    "mask_key p1 = None"
    using assms(4,5,7) False by (simp_all add: p1_def)
  have r: "Packet_get_payload h p1 = Some (h, finish h (advance p1 L) (buf_slice d c (c + L)) L)"
    using payload_unmasked [OF i1 f1(1,2) assms(6) f1(3,4), of h] .
  have "opcode (advance p1 L) = opcode p \<and> fin (advance p1 L) = fin p
      \<and> rsv1 (advance p1 L) = rsv1 p \<and> mask_p (advance p1 L) = Some m
      \<and> payload_length (advance p1 L) = Some L \<and> close_code (advance p1 L) = close_code p"
    using assms(3,4) by (simp add: p1_def)
  then show ?thesis
    using False k r by auto
qed

lemma payload_stage_empty:
  assumes "pinv d c p" and "state_p p = GET_MASK_KEY" and "mask_p p = Some m"
    and "payload_length p = Some 0" and "int (if m then 4 else 0) \<le> size_p p"
  shows "\<exists>p'. Packet_get_mask_key h p
            = Some (fst (allocUnsafe h 0),
                    Inr (p'\<lparr>payload := Some \<lparr>base = fresh h, byteOffset = 0, len = 0\<rparr>,
                            state_p := COMPLETE\<rparr>))
         \<and> opcode p' = opcode p \<and> fin p' = fin p \<and> rsv1 p' = rsv1 p \<and> mask_p p' = Some m
         \<and> payload_length p' = Some 0 \<and> close_code p' = close_code p"
proof (cases m)
  case True
  define p1 where "p1 = (advance p 4)\<lparr>mask_key := Some (buf_slice d c (c + 4)),
                                       state_p := GET_PAYLOAD\<rparr>"
  have s4: "4 \<le> size_p p"
    using assms(5) True by simp
  have k: "Packet_get_mask_key h p = Packet_get_payload h p1"
    unfolding p1_def using mask_key_masked [OF assms(1,2) _ s4, of h] assms(3) True by simp
  have r: "Packet_get_payload h p1
      = Some (fst (allocUnsafe h 0),
              Inr (p1\<lparr>payload := Some \<lparr>base = fresh h, byteOffset = 0, len = 0\<rparr>,
                      state_p := COMPLETE\<rparr>))"
    using assms(4) by (simp add: Packet_get_payload_def p1_def allocUnsafe_def)
  have "opcode p1 = opcode p \<and> fin p1 = fin p \<and> rsv1 p1 = rsv1 p \<and> mask_p p1 = Some m
      \<and> payload_length p1 = Some 0 \<and> close_code p1 = close_code p"
    using assms(3,4) by (simp add: p1_def)
  then show ?thesis
    using k r by auto
next
  case False
  define p1 where "p1 = p\<lparr>state_p := GET_PAYLOAD\<rparr>"
  have k: "Packet_get_mask_key h p = Packet_get_payload h p1"
    unfolding p1_def using mask_key_unmasked [OF assms(2), of h] assms(3) False by simp
  have r: "Packet_get_payload h p1
      = Some (fst (allocUnsafe h 0),
              Inr (p1\<lparr>payload := Some \<lparr>base = fresh h, byteOffset = 0, len = 0\<rparr>,
                      state_p := COMPLETE\<rparr>))"
    using assms(4) by (simp add: Packet_get_payload_def p1_def allocUnsafe_def)
  have "opcode p1 = opcode p \<and> fin p1 = fin p \<and> rsv1 p1 = rsv1 p \<and> mask_p p1 = Some m
      \<and> payload_length p1 = Some 0 \<and> close_code p1 = close_code p"
    using assms(3,4) by (simp add: p1_def)
  then show ?thesis
    using k r by auto
qed

text \<open>The header and the length, up to the stage that reads the mask key.\<close>

lemma length_stage:
  assumes "2 + wire_ext h d \<le> len d" and "legal_header h d"
  shows "\<exists>p. Packet h d = Packet_get_mask_key h p
         \<and> pinv d (2 + wire_ext h d) p \<and> state_p p = GET_MASK_KEY
         \<and> mask_p p = Some (wire_masked h d) \<and> payload_length p = Some (wire_length h d)
         \<and> mask_key p = None \<and> opcode p = Some (wire_opcode h d)
         \<and> fin p = Some (wire_fin h d) \<and> close_code p = None"
proof -
  define st0 where "st0 = (if wire_len7 h d = 126 then GET_PAYLOAD_LENGTH_16
                            else if wire_len7 h d = 127 then GET_PAYLOAD_LENGTH_64
                            else GET_MASK_KEY)"
  define p0 where "p0 = \<lparr>state_p = st0,
      data = (if 2 = len d then d else buf_slice d 2 (len d)),
      size_p = int (len d) - 2,
      fin = Some (wire_fin h d), rsv1 = Some (buf_get h d 0 AND 0x40 = 0x40),
      opcode = Some (wire_opcode h d), mask_p = Some (wire_masked h d), payload = None,
      payload_length = Some (wire_len7 h d), mask_key = None, close_code = None\<rparr>"
  have l2: "2 \<le> len d"
    using assms(1) by simp
  have ok: "\<not> (8 \<le> wire_opcode h d \<and> 125 < wire_len7 h d)"
    "\<not> (8 \<le> wire_opcode h d \<and> \<not> wire_fin h d)"
    using assms(2) by (auto simp: legal_header_def)
  have H: "Packet h d =
      (if 8 \<le> wire_opcode h d \<and> 125 < wire_len7 h d then
         Some (h, Inl (Error ''control frames must be less than 125 bytes.''))
       else if 8 \<le> wire_opcode h d \<and> \<not> wire_fin h d then
         Some (h, Inl (Error ''control frames must not be fragmented.''))
       else Packet_get_payload_length h p0)"
    unfolding Packet_header [OF l2] Let_def p0_def st0_def
      wire_fin_def wire_opcode_def wire_masked_def wire_len7_def
    by (rule refl)
  have P: "Packet h d = Packet_get_payload_length h p0"
    unfolding H using ok by (cases "8 \<le> wire_opcode h d") simp_all
  have inv: "pinv d 2 p0"
    unfolding p0_def by (rule Packet_header_pinv [OF l2])
  have f0: "state_p p0 = st0" "size_p p0 = int (len d) - 2" "mask_p p0 = Some (wire_masked h d)"
    "payload_length p0 = Some (wire_len7 h d)" "mask_key p0 = None"
    "opcode p0 = Some (wire_opcode h d)" "fin p0 = Some (wire_fin h d)" "close_code p0 = None"
    by (simp_all add: p0_def)
  consider (short) "wire_len7 h d \<noteq> 126" "wire_len7 h d \<noteq> 127"
    | (l16) "wire_len7 h d = 126" | (l64) "wire_len7 h d = 127"
    by blast
  then show ?thesis
  proof cases
    case short
    then have s: "state_p p0 = GET_MASK_KEY" "wire_ext h d = 0" "wire_length h d = wire_len7 h d"
      by (simp_all add: f0 st0_def wire_ext_def wire_length_def)
    show ?thesis
      using P length7 [OF s(1), of h] inv f0 s by auto
  next
    case l16
    then have s: "state_p p0 = GET_PAYLOAD_LENGTH_16" "wire_ext h d = 2"
      "wire_length h d = unat (buf_get h d 2) * 256 + unat (buf_get h d 3)"
      by (simp_all add: f0 st0_def wire_ext_def wire_length_def)
    have sz: "2 \<le> size_p p0"
      using assms(1) s(2) by (simp add: f0)
    define p1 where "p1 = (advance p0 2)\<lparr>payload_length := Some (wire_length h d),
                                         state_p := GET_MASK_KEY\<rparr>"
    have "Packet_get_payload_length h p0 = Packet_get_mask_key h p1"
      using length16 [OF inv s(1) sz, of h] by (simp add: p1_def s(3))
    moreover have "pinv d (2 + 2) p1"
      unfolding p1_def using consume_pinv(2) [OF inv, of 2] sz by simp
    ultimately show ?thesis
      using P s(2) by (auto simp: p1_def f0)
  next
    case l64
    then have s: "state_p p0 = GET_PAYLOAD_LENGTH_64" "wire_ext h d = 8"
      "wire_length h d = round_double
          ((unat (buf_get h d 2) * 16777216 + unat (buf_get h d 3) * 65536
              + unat (buf_get h d 4) * 256 + unat (buf_get h d 5)) * 2 ^ 32
           + (unat (buf_get h d 6) * 16777216 + unat (buf_get h d 7) * 65536
              + unat (buf_get h d 8) * 256 + unat (buf_get h d 9)))"
      by (simp_all add: f0 st0_def wire_ext_def wire_length_def)
    have sz: "8 \<le> size_p p0"
      using assms(1) s(2) by (simp add: f0)
    define p1 where "p1 = (advance p0 8)\<lparr>payload_length := Some (wire_length h d),
                                         state_p := GET_MASK_KEY\<rparr>"
    have "Packet_get_payload_length h p0 = Packet_get_mask_key h p1"
      using length64 [OF inv s(1) sz, of h] by (simp add: p1_def s(3))
    moreover have "pinv d (2 + 8) p1"
      unfolding p1_def using consume_pinv(2) [OF inv, of 8] sz by simp
    ultimately show ?thesis
      using P s(2) by (auto simp: p1_def f0)
  qed
qed

text \<open>
  The constructor on a buffer that holds a complete frame with a legal header and a
  payload of at least one byte.
\<close>

lemma Packet_complete:
  assumes "complete_frame h d" and "legal_header h d" and "0 < wire_length h d"
  shows "\<exists>h2 p. Packet h d = Some (h2, finish h2 p (wire_payload h d) (wire_length h d))
      \<and> fresh h2 = fresh h
      \<and> buf_bytes h2 (wire_payload h d)
          = (if wire_masked h d
             then xor_mask (buf_bytes h (wire_key h d)) (buf_bytes h (wire_payload h d))
             else buf_bytes h (wire_payload h d))
      \<and> (\<not> wire_masked h d \<longrightarrow> h2 = h)
      \<and> opcode p = Some (wire_opcode h d) \<and> fin p = Some (wire_fin h d)
      \<and> mask_p p = Some (wire_masked h d) \<and> payload_length p = Some (wire_length h d)
      \<and> close_code p = None"
proof -
  define c where "c = 2 + wire_ext h d"
  define m where "m = wire_masked h d"
  define L where "L = wire_length h d"
  have cf: "c \<le> len d" "c + (if m then 4 else 0) + L \<le> len d"
    using assms(1) by (simp_all add: complete_frame_def wire_payload_off_def c_def m_def L_def)
  obtain p where p: "Packet h d = Packet_get_mask_key h p" "pinv d c p"
    "state_p p = GET_MASK_KEY" "mask_p p = Some m" "payload_length p = Some L"
    "mask_key p = None" "opcode p = Some (wire_opcode h d)" "fin p = Some (wire_fin h d)"
    "close_code p = None"
    using length_stage [OF _ assms(2)] cf(1) unfolding c_def m_def L_def by blast
  have sz: "int ((if m then 4 else 0) + L) \<le> size_p p"
    using p(2) cf by (simp add: pinv_def)
  have L0: "0 < L"
    using assms(3) by (simp add: L_def)
  have wp: "wire_payload h d = buf_slice d (c + (if m then 4 else 0)) (c + (if m then 4 else 0) + L)"
    by (simp add: wire_payload_def wire_payload_off_def c_def m_def L_def)
  have wk: "wire_key h d = buf_slice d c (c + 4)"
    by (simp add: wire_key_def c_def)
  obtain h2 p' where r: "Packet_get_mask_key h p
            = Some (h2, finish h2 p' (buf_slice d (c + (if m then 4 else 0))
                                        (c + (if m then 4 else 0) + L)) L)"
      "fresh h2 = fresh h"
      "buf_bytes h2 (buf_slice d (c + (if m then 4 else 0)) (c + (if m then 4 else 0) + L))
             = (if m then xor_mask (buf_bytes h (buf_slice d c (c + 4)))
                            (buf_bytes h (buf_slice d (c + 4) (c + 4 + L)))
                else buf_bytes h (buf_slice d c (c + L)))"
      "\<not> m \<longrightarrow> h2 = h"
      "opcode p' = opcode p" "fin p' = fin p" "mask_p p' = Some m"
      "payload_length p' = Some L" "close_code p' = close_code p"
    using payload_stage [OF p(2,3,4,5,6) L0 sz, of h] by blast
  have b: "buf_bytes h2 (wire_payload h d)
          = (if m then xor_mask (buf_bytes h (wire_key h d)) (buf_bytes h (wire_payload h d))
             else buf_bytes h (wire_payload h d))"
    unfolding wp wk using r(3) by (cases m) simp_all
  have r1: "Packet h d = Some (h2, finish h2 p' (wire_payload h d) L)"
    using p(1) r(1) by (simp only: wp)
  show ?thesis
    using r1 r(2,4-9) p(7-9) b unfolding m_def L_def by auto
qed

lemma Packet_complete_empty:
  assumes "complete_frame h d" and "legal_header h d" and "wire_length h d = 0"
  shows "\<exists>p. Packet h d
          = Some (fst (allocUnsafe h 0),
                  Inr (p\<lparr>payload := Some \<lparr>base = fresh h, byteOffset = 0, len = 0\<rparr>,
                         state_p := COMPLETE\<rparr>))
      \<and> opcode p = Some (wire_opcode h d) \<and> fin p = Some (wire_fin h d)
      \<and> mask_p p = Some (wire_masked h d) \<and> payload_length p = Some 0
      \<and> close_code p = None"
proof -
  define c where "c = 2 + wire_ext h d"
  define m where "m = wire_masked h d"
  have cf: "c \<le> len d" "c + (if m then 4 else 0) \<le> len d"
    using assms(1,3) by (simp_all add: complete_frame_def wire_payload_off_def c_def m_def)
  obtain p where p: "Packet h d = Packet_get_mask_key h p" "pinv d c p"
    "state_p p = GET_MASK_KEY" "mask_p p = Some m" "payload_length p = Some 0"
    "mask_key p = None" "opcode p = Some (wire_opcode h d)" "fin p = Some (wire_fin h d)"
    "close_code p = None"
    using length_stage [OF _ assms(2)] cf(1) assms(3) unfolding c_def m_def by auto
  have sz: "int (if m then 4 else 0) \<le> size_p p"
    using p(2) cf by (simp add: pinv_def)
  show ?thesis
    using payload_stage_empty [OF p(2,3,4,5) sz, of h] p(1,7-9) unfolding m_def by auto
qed


section \<open>Close frames\<close>

lemma buf_bytes_slice:
  assumes "j \<le> k" and "k \<le> len b"
  shows "buf_bytes h (buf_slice b j k) = take (k - j) (drop j (buf_bytes h b))"
proof (rule nth_equalityI)
  show "length (buf_bytes h (buf_slice b j k)) = length (take (k - j) (drop j (buf_bytes h b)))"
    using assms by (simp add: len_slice)
next
  fix i
  assume "i < length (buf_bytes h (buf_slice b j k))"
  then have i: "i < k - j"
    using assms by (simp add: len_slice)
  then have "j + i < len b"
    using assms by arith
  then show "buf_bytes h (buf_slice b j k) ! i = take (k - j) (drop j (buf_bytes h b)) ! i"
    using i assms by (simp add: len_slice buf_get_slice)
qed

lemma len_wire_payload:
  assumes "complete_frame h d"
  shows "len (wire_payload h d) = wire_length h d"
  using assms by (simp add: complete_frame_def wire_payload_def buf_slice_def)

lemma length_wire_payload_bytes:
  assumes "complete_frame h d"
  shows "length (wire_payload_bytes h d) = wire_length h d"
  using len_wire_payload [OF assms] by (simp add: wire_payload_bytes_def xor_mask_def)

lemma string_of_bytes_Nil: "string_of_bytes [] = []"
  by (simp add: string_of_bytes_def)

text \<open>
  Claim C4. Let \<open>d\<close> hold a complete Close frame that passes the header check (opcode
  8, fin set, 7-bit length at most 125), masked or not. With a payload of exactly one
  byte the constructor throws \<^verbatim>\<open>close frame length is not valid.\<close> With a payload of
  two or more bytes the packet is complete, its \<open>close_code\<close> is the big-endian 16-bit
  number in the first two bytes of the payload the frame carries, and its payload is the
  rest of those bytes. With an empty payload the packet is complete with an empty
  payload and no \<open>close_code\<close>; the data listener then sets the \<open>closeCode\<close> of the
  connection to 1006.
\<close>

theorem close_frame_postprocessing:
  assumes "complete_frame h d" and "wire_opcode h d = 8" and "wire_fin h d"
    and "wire_len7 h d \<le> 125"
  shows "(wire_length h d = 1 \<longrightarrow>
            (\<exists>h2. Packet h d = Some (h2, Inl (Error ''close frame length is not valid.''))))
       \<and> (2 \<le> wire_length h d \<longrightarrow>
            (\<exists>h2 pk. Packet h d = Some (h2, Inr pk) \<and> state_p pk = COMPLETE
               \<and> opcode pk = Some 8
               \<and> close_code pk = Some (unat (wire_payload_bytes h d ! 0) * 256
                                         + unat (wire_payload_bytes h d ! 1))
               \<and> map_option (buf_bytes h2) (payload pk) = Some (drop 2 (wire_payload_bytes h d))))
       \<and> (wire_length h d = 0 \<longrightarrow>
            (\<exists>h2 pk. Packet h d = Some (h2, Inr pk) \<and> state_p pk = COMPLETE
               \<and> opcode pk = Some 8 \<and> close_code pk = None
               \<and> map_option (buf_bytes h2) (payload pk) = Some [])
            \<and> (\<exists>h2 ws'. socket_on_data rnd h ws d = Some (None, h2, ws')
                  \<and> closeCode ws' = 1006))"
proof -
  have lh: "legal_header h d"
    using assms(3,4) by (simp add: legal_header_def)
  have one: "\<exists>h2. Packet h d = Some (h2, Inl (Error ''close frame length is not valid.''))"
    if "wire_length h d = 1"
  proof -
    have "0 < wire_length h d"
      using that by simp
    then obtain h2 p where r: "Packet h d = Some (h2, finish h2 p (wire_payload h d) (wire_length h d))"
      "opcode p = Some (wire_opcode h d)"
      using Packet_complete [OF assms(1) lh] by blast
    show ?thesis
      using r that assms(2) by (simp add: finish_def)
  qed
  have two: "\<exists>h2 pk. Packet h d = Some (h2, Inr pk) \<and> state_p pk = COMPLETE
               \<and> opcode pk = Some 8
               \<and> close_code pk = Some (unat (wire_payload_bytes h d ! 0) * 256
                                         + unat (wire_payload_bytes h d ! 1))
               \<and> map_option (buf_bytes h2) (payload pk) = Some (drop 2 (wire_payload_bytes h d))"
    if "2 \<le> wire_length h d"
  proof -
    define b where "b = wire_payload h d"
    define L where "L = wire_length h d"
    have lb: "len b = L"
      unfolding b_def L_def by (rule len_wire_payload [OF assms(1)])
    have L2: "2 \<le> L" "0 < L" "L \<noteq> 1"
      using that by (simp_all add: L_def)
    have "0 < wire_length h d"
      using that by simp
    then obtain h2 p where r: "Packet h d = Some (h2, finish h2 p b L)"
      "buf_bytes h2 b = wire_payload_bytes h d"
      "opcode p = Some (wire_opcode h d)"
      using Packet_complete [OF assms(1) lh]
      unfolding b_def L_def wire_payload_bytes_def by blast
    define pk where "pk = p\<lparr>payload := Some b,
                     close_code := Some (unat (buf_get h2 b 0) * 256 + unat (buf_get h2 b 1)),
                     payload := Some (buf_slice b 2 (len b)),
                     state_p := COMPLETE\<rparr>"
    have f: "finish h2 p b L = Inr pk"
      using r(3) assms(2) L2(3) by (simp add: finish_def pk_def)
    have g: "buf_get h2 b 0 = wire_payload_bytes h d ! 0"
      "buf_get h2 b 1 = wire_payload_bytes h d ! 1"
      using r(2) [symmetric] lb L2(1) by simp_all
    have lw: "length (wire_payload_bytes h d) = L"
      unfolding L_def by (rule length_wire_payload_bytes [OF assms(1)])
    have s: "buf_bytes h2 (buf_slice b 2 (len b)) = drop 2 (wire_payload_bytes h d)"
      using buf_bytes_slice [of 2 "len b" b h2] lb L2(1) r(2) lw by simp
    have "state_p pk = COMPLETE \<and> opcode pk = Some 8
        \<and> close_code pk = Some (unat (wire_payload_bytes h d ! 0) * 256
                                  + unat (wire_payload_bytes h d ! 1))
        \<and> map_option (buf_bytes h2) (payload pk) = Some (drop 2 (wire_payload_bytes h d))"
      using r(3) assms(2) g by (simp add: pk_def s)
    then show ?thesis
      using r(1) f by auto
  qed
  have zero: "(\<exists>h2 pk. Packet h d = Some (h2, Inr pk) \<and> state_p pk = COMPLETE
               \<and> opcode pk = Some 8 \<and> close_code pk = None
               \<and> map_option (buf_bytes h2) (payload pk) = Some [])
            \<and> (\<exists>h2 ws'. socket_on_data rnd h ws d = Some (None, h2, ws')
                  \<and> closeCode ws' = 1006)"
    if z: "wire_length h d = 0"
  proof -
    define e where "e = \<lparr>base = fresh h, byteOffset = 0, len = 0\<rparr>"
    obtain p where r: "Packet h d
          = Some (fst (allocUnsafe h 0), Inr (p\<lparr>payload := Some e, state_p := COMPLETE\<rparr>))"
      "opcode p = Some (wire_opcode h d)" "close_code p = None"
      using Packet_complete_empty [OF assms(1) lh z] unfolding e_def by auto
    define pk where "pk = p\<lparr>payload := Some e, state_p := COMPLETE\<rparr>"
    have eb: "buf_bytes hh e = []" for hh
      by (simp add: buf_bytes_def e_def)
    have pkf: "state_p pk = COMPLETE" "opcode pk = Some 8" "close_code pk = None"
      "payload pk = Some e"
      using r(2,3) assms(2) by (simp_all add: pk_def)
    have a: "\<exists>h2 pk. Packet h d = Some (h2, Inr pk) \<and> state_p pk = COMPLETE
               \<and> opcode pk = Some 8 \<and> close_code pk = None
               \<and> map_option (buf_bytes h2) (payload pk) = Some []"
      using r(1) pkf eb unfolding pk_def [symmetric] by auto
    have "socket_on_data rnd h ws d
          = Some (None, fst (allocUnsafe h 0),
                  socket_destroy (ws\<lparr>closeCode := 1006, closeReason := ''Abnormal Closure''\<rparr>))"
      unfolding socket_on_data_def r(1) pk_def [symmetric]
      by (simp add: pkf eb string_of_bytes_Nil Let_def)
    moreover have "closeCode (socket_destroy (ws\<lparr>closeCode := 1006,
                      closeReason := ''Abnormal Closure''\<rparr>)) = 1006"
      by (simp add: socket_destroy_def split: option.splits)
    ultimately show ?thesis
      using a by auto
  qed
  show ?thesis
    using one two zero by blast
qed

lemma buf_from_facts:
  "len (snd (buf_from h xs)) = length xs"
  "buf_bytes (fst (buf_from h xs)) (snd (buf_from h xs)) = xs"
  "snd (buf_from h xs) = \<lparr>base = fresh h, byteOffset = 0, len = length xs\<rparr>"
  "fresh (fst (buf_from h xs)) = Suc (fresh h)"
  "base (snd (buf_from h xs)) = fresh h"
proof -
  obtain h' b where e: "buf_from h xs = (h', b)"
    by (cases "buf_from h xs")
  show "base (snd (buf_from h xs)) = fresh h"
    using buf_from_bytes(2) [OF e] e by simp
  show "len (snd (buf_from h xs)) = length xs"
    by (simp add: len_buf_from)
  show "buf_bytes (fst (buf_from h xs)) (snd (buf_from h xs)) = xs"
    using buf_from_bytes(1) [OF e] e by simp
  show "snd (buf_from h xs) = \<lparr>base = fresh h, byteOffset = 0, len = length xs\<rparr>"
    using buf_from_bytes(2) [OF e] e by simp
  show "fresh (fst (buf_from h xs)) = Suc (fresh h)"
    using buf_from_bytes(3) [OF e] e by simp
qed

text \<open>The frame fields of a buffer that \<^verbatim>\<open>Buffer.from\<close> made of a list of bytes.\<close>

lemma wire_buf_from:
  assumes "2 \<le> length xs"
  shows "wire_fin (fst (buf_from h0 xs)) (snd (buf_from h0 xs)) = (xs ! 0 AND 0x80 = 0x80)"
    and "wire_opcode (fst (buf_from h0 xs)) (snd (buf_from h0 xs)) = unat (xs ! 0 AND 0x0f)"
    and "wire_masked (fst (buf_from h0 xs)) (snd (buf_from h0 xs)) = (xs ! 1 AND 0x80 = 0x80)"
    and "wire_len7 (fst (buf_from h0 xs)) (snd (buf_from h0 xs)) = unat (xs ! 1 AND 0x7f)"
proof -
  have l: "0 < length xs" "1 < length xs"
    using assms by auto
  show "wire_fin (fst (buf_from h0 xs)) (snd (buf_from h0 xs)) = (xs ! 0 AND 0x80 = 0x80)"
    and "wire_opcode (fst (buf_from h0 xs)) (snd (buf_from h0 xs)) = unat (xs ! 0 AND 0x0f)"
    and "wire_masked (fst (buf_from h0 xs)) (snd (buf_from h0 xs)) = (xs ! 1 AND 0x80 = 0x80)"
    and "wire_len7 (fst (buf_from h0 xs)) (snd (buf_from h0 xs)) = unat (xs ! 1 AND 0x7f)"
    using l
    by (simp_all add: wire_fin_def wire_opcode_def wire_masked_def wire_len7_def
        buf_get_buf_from)
qed

lemma wire_payload_buf_from_short:
  assumes "2 \<le> length xs" and "unat (xs ! 1 AND 0x7f) = L" and "L \<le> 125"
    and "xs ! 1 AND 0x80 \<noteq> 0x80" and "2 + L \<le> length xs"
  shows "wire_length (fst (buf_from h0 xs)) (snd (buf_from h0 xs)) = L"
    and "complete_frame (fst (buf_from h0 xs)) (snd (buf_from h0 xs))"
    and "wire_payload_bytes (fst (buf_from h0 xs)) (snd (buf_from h0 xs)) = take L (drop 2 xs)"
proof -
  define h where "h = fst (buf_from h0 xs)"
  define d where "d = snd (buf_from h0 xs)"
  have w: "wire_len7 h d = L" "\<not> wire_masked h d" "len d = length xs"
    using wire_buf_from(3,4) [OF assms(1), of h0] assms(2,4)
    by (simp_all add: h_def d_def len_buf_from)
  have e: "wire_ext h d = 0" "wire_length h d = L" "wire_payload_off h d = 2"
    using w assms(3) by (simp_all add: wire_ext_def wire_length_def wire_payload_off_def)
  show "wire_length (fst (buf_from h0 xs)) (snd (buf_from h0 xs)) = L"
    using e(2) by (simp add: h_def d_def)
  show "complete_frame (fst (buf_from h0 xs)) (snd (buf_from h0 xs))"
    using e w assms(5) by (simp add: complete_frame_def h_def d_def)
  have "buf_bytes h (buf_slice d 2 (2 + L)) = take L (drop 2 (buf_bytes h d))"
    using buf_bytes_slice [of 2 "2 + L" d h] w assms(5) by simp
  moreover have "buf_bytes h d = xs"
    by (simp add: h_def d_def buf_from_facts(2))
  ultimately have "wire_payload_bytes h d = take L (drop 2 xs)"
    using w e by (simp add: wire_payload_bytes_def wire_payload_def)
  then show "wire_payload_bytes (fst (buf_from h0 xs)) (snd (buf_from h0 xs)) = take L (drop 2 xs)"
    by (simp add: h_def d_def)
qed

theorem close_frame_postprocessing_witness:
  "(\<exists>h2. Packet (fst (buf_from empty_heap [0x88, 0x01, 0x41]))
             (snd (buf_from empty_heap [0x88, 0x01, 0x41]))
           = Some (h2, Inl (Error ''close frame length is not valid.'')))
   \<and> (\<exists>h2 pk. Packet (fst (buf_from empty_heap [0x88, 0x05, 0x03, 0xE8, 0x62, 0x79, 0x65]))
                (snd (buf_from empty_heap [0x88, 0x05, 0x03, 0xE8, 0x62, 0x79, 0x65]))
              = Some (h2, Inr pk)
         \<and> state_p pk = COMPLETE \<and> opcode pk = Some 8 \<and> close_code pk = Some 1000
         \<and> map_option (buf_bytes h2) (payload pk) = Some [0x62, 0x79, 0x65])
   \<and> (\<exists>h2 pk. Packet (fst (buf_from empty_heap [0x88, 0x00]))
                (snd (buf_from empty_heap [0x88, 0x00])) = Some (h2, Inr pk)
         \<and> state_p pk = COMPLETE \<and> opcode pk = Some 8 \<and> close_code pk = None
         \<and> map_option (buf_bytes h2) (payload pk) = Some [])
   \<and> (\<exists>h2 ws'. socket_on_data (\<lambda>_. 1) (fst (buf_from empty_heap [0x88, 0x00])) example_open
                 (snd (buf_from empty_heap [0x88, 0x00])) = Some (None, h2, ws')
         \<and> closeCode ws' = 1006)"
proof -
  let ?x1 = "[0x88, 0x01, 0x41] :: byte list"
  let ?x2 = "[0x88, 0x05, 0x03, 0xE8, 0x62, 0x79, 0x65] :: byte list"
  let ?x0 = "[0x88, 0x00] :: byte list"
  have w1: "wire_opcode (fst (buf_from empty_heap ?x1)) (snd (buf_from empty_heap ?x1)) = 8"
    "wire_fin (fst (buf_from empty_heap ?x1)) (snd (buf_from empty_heap ?x1))"
    "wire_len7 (fst (buf_from empty_heap ?x1)) (snd (buf_from empty_heap ?x1)) \<le> 125"
    by (simp_all add: wire_buf_from)
  have p1: "wire_length (fst (buf_from empty_heap ?x1)) (snd (buf_from empty_heap ?x1)) = 1"
    "complete_frame (fst (buf_from empty_heap ?x1)) (snd (buf_from empty_heap ?x1))"
    using wire_payload_buf_from_short [of ?x1 1 empty_heap] by simp_all
  have w2: "wire_opcode (fst (buf_from empty_heap ?x2)) (snd (buf_from empty_heap ?x2)) = 8"
    "wire_fin (fst (buf_from empty_heap ?x2)) (snd (buf_from empty_heap ?x2))"
    "wire_len7 (fst (buf_from empty_heap ?x2)) (snd (buf_from empty_heap ?x2)) \<le> 125"
    by (simp_all add: wire_buf_from)
  have p2: "wire_length (fst (buf_from empty_heap ?x2)) (snd (buf_from empty_heap ?x2)) = 5"
    "complete_frame (fst (buf_from empty_heap ?x2)) (snd (buf_from empty_heap ?x2))"
    "wire_payload_bytes (fst (buf_from empty_heap ?x2)) (snd (buf_from empty_heap ?x2))
     = take 5 (drop 2 ?x2)"
    using wire_payload_buf_from_short [of ?x2 5 empty_heap] by simp_all
  have w0: "wire_opcode (fst (buf_from empty_heap ?x0)) (snd (buf_from empty_heap ?x0)) = 8"
    "wire_fin (fst (buf_from empty_heap ?x0)) (snd (buf_from empty_heap ?x0))"
    "wire_len7 (fst (buf_from empty_heap ?x0)) (snd (buf_from empty_heap ?x0)) \<le> 125"
    by (simp_all add: wire_buf_from)
  have p0: "wire_length (fst (buf_from empty_heap ?x0)) (snd (buf_from empty_heap ?x0)) = 0"
    "complete_frame (fst (buf_from empty_heap ?x0)) (snd (buf_from empty_heap ?x0))"
    using wire_payload_buf_from_short [of ?x0 0 empty_heap] by simp_all
  have c: "(1000::nat) = unat (0x03 :: byte) * 256 + unat (0xE8 :: byte)"
    by simp
  show ?thesis
    using close_frame_postprocessing [OF p1(2) w1, of "\<lambda>_. 1" example_open]
      close_frame_postprocessing [OF p2(2) w2, of "\<lambda>_. 1" example_open]
      close_frame_postprocessing [OF p0(2) w0, of "\<lambda>_. 1" example_open]
    by (simp add: p1(1) p2(1,3) p0(1))
qed


section \<open>The payload after masking\<close>

lemma xor_mask_neq_iff:
  "(xor_mask key bs \<noteq> bs) = (\<exists>i<length bs. key ! (i mod 4) \<noteq> 0)"
proof -
  have x: "(x XOR k = x) = (k = 0)" for x k :: byte
  proof
    assume "x XOR k = x"
    then have "x XOR (x XOR k) = x XOR x"
      by simp
    then show "k = 0"
      by (simp add: xor.assoc [symmetric])
  next
    assume "k = 0"
    then show "x XOR k = x"
      by simp
  qed
  have n: "xor_mask key bs ! i = bs ! i XOR key ! (i mod 4)" if "i < length bs" for i
    using that by (simp add: xor_mask_def)
  have "(xor_mask key bs = bs) = (\<forall>i<length bs. key ! (i mod 4) = 0)"
  proof
    assume e: "xor_mask key bs = bs"
    show "\<forall>i<length bs. key ! (i mod 4) = 0"
    proof (intro allI impI)
      fix i
      assume i: "i < length bs"
      have "bs ! i XOR key ! (i mod 4) = bs ! i"
        using n [OF i] e by simp
      then show "key ! (i mod 4) = 0"
        by (simp only: x)
    qed
  next
    assume "\<forall>i<length bs. key ! (i mod 4) = 0"
    then show "xor_mask key bs = bs"
      by (intro nth_equalityI) (simp_all add: xor_mask_def)
  qed
  then show ?thesis
    by blast
qed

lemma key_nth:
  assumes "i < 4"
  shows "map rnd [0..<4] ! i = rnd i"
  using assms by simp

lemma xor_key_neq_iff:
  "(xor_mask (map rnd [0..<4]) bs \<noteq> bs) = (\<exists>i<length bs. rnd (i mod 4) \<noteq> 0)"
  unfolding xor_mask_neq_iff by (simp add: key_nth)

text \<open>
  The data listener on a complete, legal Ping frame, for a connection that is not
  connecting: the pong goes out first, masked in the payload's own buffer, and
  \<^verbatim>\<open>'ping'\<close> is emitted with what that buffer holds then.
\<close>

lemma ping_dispatch:
  assumes "complete_frame h d" and "wire_opcode h d = 9" and "wire_fin h d"
    and "wire_len7 h d \<le> 125" and "base d < fresh h" and "state ws \<noteq> CONNECTING"
  shows "\<exists>h' ws'. socket_on_data rnd h ws d = Some (None, h', ws')
      \<and> emitted ws' = emitted ws
            @ [Ev_ping (Some (xor_mask (map rnd [0..<4]) (wire_payload_bytes h d)))]
      \<and> socket ws' = map_option
            (\<lambda>s. s\<lparr>written := written s
                       @ [frame_header True 10 (wire_length h d) True @ map rnd [0..<4]
                          @ xor_mask (map rnd [0..<4]) (wire_payload_bytes h d)]\<rparr>)
            (socket ws)"
proof -
  have lh: "legal_header h d"
    using assms(3,4) by (simp add: legal_header_def)
  define L where "L = wire_length h d"
  have L125: "L \<le> 125"
    using assms(4) by (simp add: L_def wire_length_def)
  text \<open>The packet, its payload buffer and the store after the constructor.\<close>
  have "\<exists>h2 pk b. Packet h d = Some (h2, Inr pk) \<and> opcode pk = Some 9 \<and> payload pk = Some b
        \<and> len b = L \<and> base b < fresh h2 \<and> buf_bytes h2 b = wire_payload_bytes h d"
  proof (cases "L = 0")
    case True
    define e where "e = \<lparr>base = fresh h, byteOffset = 0, len = 0\<rparr>"
    obtain p where r: "Packet h d
          = Some (fst (allocUnsafe h 0), Inr (p\<lparr>payload := Some e, state_p := COMPLETE\<rparr>))"
      "opcode p = Some (wire_opcode h d)"
      using Packet_complete_empty [OF assms(1) lh] True unfolding e_def L_def by auto
    have "length (wire_payload_bytes h d) = 0"
      using length_wire_payload_bytes [OF assms(1)] True by (simp add: L_def)
    then have "buf_bytes (fst (allocUnsafe h 0)) e = wire_payload_bytes h d"
      by (simp add: buf_bytes_def e_def)
    moreover have "base e < fresh (fst (allocUnsafe h 0))" "len e = L"
      using True by (simp_all add: e_def)
    ultimately show ?thesis
      using r assms(2) by auto
  next
    case False
    then have "0 < wire_length h d"
      by (simp add: L_def)
    then obtain h2 p where r: "Packet h d = Some (h2, finish h2 p (wire_payload h d) L)"
      "fresh h2 = fresh h" "buf_bytes h2 (wire_payload h d) = wire_payload_bytes h d"
      "opcode p = Some (wire_opcode h d)"
      using Packet_complete [OF assms(1) lh]
      unfolding L_def wire_payload_bytes_def by blast
    have f: "finish h2 p (wire_payload h d) L
             = Inr (p\<lparr>payload := Some (wire_payload h d), state_p := COMPLETE\<rparr>)"
      using r(4) assms(2) by (simp add: finish_def)
    have "base (wire_payload h d) < fresh h2" "len (wire_payload h d) = L"
      using assms(5) r(2) len_wire_payload [OF assms(1)]
      by (simp_all add: wire_payload_def buf_slice_def L_def)
    then show ?thesis
      using r f assms(2) by auto
  qed
  then obtain h2 pk b where pk: "Packet h d = Some (h2, Inr pk)" "opcode pk = Some 9"
    "payload pk = Some b" "len b = L" "base b < fresh h2"
    "buf_bytes h2 b = wire_payload_bytes h d"
    by blast
  have l64: "len b < 2 ^ 64"
    using pk(4) L125 by simp
  obtain h3 out where fr: "frame rnd h2 10 b True False True = Inr (h3, out)"
    "buf_bytes h3 b = xor_mask (map rnd [0..<4]) (buf_bytes h2 b)"
    "buf_bytes h3 out = frame_header True 10 (len b) True @ map rnd [0..<4]
                             @ xor_mask (map rnd [0..<4]) (buf_bytes h2 b)"
    using frame_masked_bytes [OF pk(5) l64, of rnd 10 True False] by blast
  have n125: "\<not> 125 < len b"
    using pk(4) L125 by simp
  have po: "pong rnd h2 ws (J_buffer b) = (None, h3, socket_write h3 ws out)"
    using assms(6) n125 fr(1) by (simp add: pong_def control_payload_def)
  have s: "socket_on_data rnd h ws d
           = Some (None, h3, emit (socket_write h3 ws out) (Ev_ping (Some (buf_bytes h3 b))))"
    unfolding socket_on_data_def pk(1) using pk(2,3) po by simp
  have "emitted (emit (socket_write h3 ws out) (Ev_ping (Some (buf_bytes h3 b))))
        = emitted ws @ [Ev_ping (Some (xor_mask (map rnd [0..<4]) (wire_payload_bytes h d)))]"
    by (simp add: emit_def fr(2) pk(6))
  moreover have "socket (emit (socket_write h3 ws out) (Ev_ping (Some (buf_bytes h3 b))))
      = map_option
            (\<lambda>s. s\<lparr>written := written s
                       @ [frame_header True 10 (wire_length h d) True @ map rnd [0..<4]
                          @ xor_mask (map rnd [0..<4]) (wire_payload_bytes h d)]\<rparr>)
            (socket ws)"
    using pk(4)
    by (simp add: emit_def socket_write_def fr(3) pk(6) L_def split: option.splits)
  ultimately show ?thesis
    using s by blast
qed

text \<open>
  Claim C10, as the code has it. \<^verbatim>\<open>Packet.frame\<close> with \<^verbatim>\<open>mask\<close> set XORs the payload
  where it lies: after the call the caller's buffer holds the payload XORed with the
  key of that call, byte \<open>i\<close> with key byte \<open>i mod 4\<close>. These are other bytes than
  before exactly when some position of the payload meets a key byte that is not zero;
  an empty payload or a key of four zero bytes leaves the buffer as it was. In the
  dispatch of a complete, legal Ping frame (the connection not connecting) the pong,
  which frames the payload's own buffer with \<^verbatim>\<open>mask\<close> set, is written before
  \<^verbatim>\<open>'ping'\<close> is emitted, so the event carries the payload of the frame XORed with the
  pong's key: other bytes than the payload received, under the same condition.
\<close>

theorem masking_in_place:
  assumes "base pl < fresh h" and "len pl < 2 ^ 64"
    and "complete_frame h d" and "wire_opcode h d = 9" and "wire_fin h d"
    and "wire_len7 h d \<le> 125" and "base d < fresh h" and "state ws \<noteq> CONNECTING"
  shows "(\<exists>h' out. frame rnd h opc pl fin_arg rsv1_arg True = Inr (h', out)
            \<and> buf_bytes h' pl = xor_mask (map rnd [0..<4]) (buf_bytes h pl)
            \<and> (buf_bytes h' pl \<noteq> buf_bytes h pl) = (\<exists>i<len pl. rnd (i mod 4) \<noteq> 0))
       \<and> (\<exists>h' ws'. socket_on_data rnd h ws d = Some (None, h', ws')
            \<and> emitted ws' = emitted ws
                 @ [Ev_ping (Some (xor_mask (map rnd [0..<4]) (wire_payload_bytes h d)))]
            \<and> socket ws' = map_option
                 (\<lambda>s. s\<lparr>written := written s
                            @ [frame_header True 10 (wire_length h d) True @ map rnd [0..<4]
                               @ xor_mask (map rnd [0..<4]) (wire_payload_bytes h d)]\<rparr>)
                 (socket ws)
            \<and> (xor_mask (map rnd [0..<4]) (wire_payload_bytes h d) \<noteq> wire_payload_bytes h d)
                = (\<exists>i<wire_length h d. rnd (i mod 4) \<noteq> 0))"
proof -
  obtain h' out where f: "frame rnd h opc pl fin_arg rsv1_arg True = Inr (h', out)"
    "buf_bytes h' pl = xor_mask (map rnd [0..<4]) (buf_bytes h pl)"
    using frame_masked_bytes [OF assms(1,2), of rnd opc fin_arg rsv1_arg] by blast
  have "(buf_bytes h' pl \<noteq> buf_bytes h pl) = (\<exists>i<len pl. rnd (i mod 4) \<noteq> 0)"
    unfolding f(2) xor_key_neq_iff by simp
  then have a: "\<exists>h' out. frame rnd h opc pl fin_arg rsv1_arg True = Inr (h', out)
            \<and> buf_bytes h' pl = xor_mask (map rnd [0..<4]) (buf_bytes h pl)
            \<and> (buf_bytes h' pl \<noteq> buf_bytes h pl) = (\<exists>i<len pl. rnd (i mod 4) \<noteq> 0)"
    using f by blast
  have "(xor_mask (map rnd [0..<4]) (wire_payload_bytes h d) \<noteq> wire_payload_bytes h d)
                = (\<exists>i<wire_length h d. rnd (i mod 4) \<noteq> 0)"
    unfolding xor_key_neq_iff length_wire_payload_bytes [OF assms(3)] by simp
  then show ?thesis
    using a ping_dispatch [OF assms(3-8), of rnd] by blast
qed

lemma example_open_fields:
  "state example_open = OPEN" "emitted example_open = [Ev_upgrade (example_response None), Ev_open]"
  "socket example_open = Some (example_socket\<lparr>sock_timeout := Some 0, noDelay := True\<rparr>)"
  by (simp_all add: example_open_def example_ws_def WebSocket_def Let_def example_url_def
      example_options_def req_on_upgrade_def example_response_def set_socket_def emit_def)

theorem masking_in_place_witness:
  "(\<exists>h' out. frame (\<lambda>_. 7) (fst (buf_from empty_heap [0x89, 0x02, 0x68, 0x69])) 9
                 (snd (buf_from empty_heap [0x89, 0x02, 0x68, 0x69])) True False True
               = Inr (h', out)
       \<and> buf_bytes h' (snd (buf_from empty_heap [0x89, 0x02, 0x68, 0x69]))
           = [0x8E, 0x05, 0x6F, 0x6E])
   \<and> (\<exists>h' ws'. socket_on_data (\<lambda>_. 7)
                   (fst (buf_from empty_heap [0x89, 0x02, 0x68, 0x69])) example_open
                   (snd (buf_from empty_heap [0x89, 0x02, 0x68, 0x69])) = Some (None, h', ws')
       \<and> emitted ws' = [Ev_upgrade (example_response None), Ev_open, Ev_ping (Some [0x6F, 0x6E])]
       \<and> socket ws' = Some (example_socket\<lparr>sock_timeout := Some 0, noDelay := True,
                              written := [[0x8A, 0x82, 7, 7, 7, 7, 0x6F, 0x6E]]\<rparr>))"
proof -
  let ?xs = "[0x89, 0x02, 0x68, 0x69] :: byte list"
  let ?h = "fst (buf_from empty_heap ?xs)"
  let ?d = "snd (buf_from empty_heap ?xs)"
  let ?rnd = "\<lambda>_::nat. 7 :: byte"
  have a: "base ?d < fresh ?h" "len ?d < 2 ^ 64"
    by (simp_all add: buf_from_facts(1,4,5))
  have w: "wire_opcode ?h ?d = 9" "wire_fin ?h ?d" "wire_len7 ?h ?d \<le> 125"
    by (simp_all add: wire_buf_from)
  have p: "wire_length ?h ?d = 2" "complete_frame ?h ?d"
    "wire_payload_bytes ?h ?d = take 2 (drop 2 ?xs)"
    using wire_payload_buf_from_short [of ?xs 2 empty_heap] by simp_all
  have s: "state example_open \<noteq> CONNECTING"
    by (simp add: example_open_fields)
  have k: "map ?rnd [0..<4] = [7, 7, 7, 7]"
    by (simp add: upt_4)
  have x: "xor_mask [7, 7, 7, 7] ?xs = [0x8E, 0x05, 0x6F, 0x6E]"
    "xor_mask [7, 7, 7, 7] [0x68, 0x69 :: byte] = [0x6F, 0x6E]"
    by (simp_all add: xor_mask_def upt_4 upt_2)
  have hd: "frame_header True 10 2 True = [0x8A, 0x82]"
    by (simp add: frame_header_def)
  note t = masking_in_place [OF a p(2) w a(1) s, of ?rnd 9 True False]
  from t obtain h1 out where f: "frame ?rnd ?h 9 ?d True False True = Inr (h1, out)"
    "buf_bytes h1 ?d = xor_mask (map ?rnd [0..<4]) (buf_bytes ?h ?d)"
    by blast
  from t obtain h2 ws' where r: "socket_on_data ?rnd ?h example_open ?d = Some (None, h2, ws')"
    "emitted ws' = emitted example_open
        @ [Ev_ping (Some (xor_mask (map ?rnd [0..<4]) (wire_payload_bytes ?h ?d)))]"
    "socket ws' = map_option
         (\<lambda>s. s\<lparr>written := written s
                    @ [frame_header True 10 (wire_length ?h ?d) True @ map ?rnd [0..<4]
                       @ xor_mask (map ?rnd [0..<4]) (wire_payload_bytes ?h ?d)]\<rparr>)
         (socket example_open)"
    by blast
  have f2: "buf_bytes h1 ?d = [0x8E, 0x05, 0x6F, 0x6E]"
    unfolding f(2) k buf_from_facts(2) by (rule x(1))
  have pb: "wire_payload_bytes ?h ?d = [0x68, 0x69]"
    unfolding p(3) by simp
  have r2: "emitted ws' = [Ev_upgrade (example_response None), Ev_open, Ev_ping (Some [0x6F, 0x6E])]"
    unfolding r(2) k pb x(2) by (simp add: example_open_fields)
  have r3: "socket ws' = Some (example_socket\<lparr>sock_timeout := Some 0, noDelay := True,
                              written := [[0x8A, 0x82, 7, 7, 7, 7, 0x6F, 0x6E]]\<rparr>)"
    unfolding r(3) k pb x(2) p(1) hd by (simp add: example_open_fields example_socket_def)
  show ?thesis
    using f(1) f2 r(1) r2 r3 by blast
qed

text \<open>
  The claim as stated fails in two ways. With a key of four zero bytes the payload
  buffer holds the original bytes after the call. And a Ping without payload, the
  common one, makes \<^verbatim>\<open>'ping'\<close> carry the payload as it was received.
\<close>

theorem masking_in_place_counterexample:
  "(case frame (\<lambda>_. 0) (fst (buf_from empty_heap [0x41, 0x42])) 9
           (snd (buf_from empty_heap [0x41, 0x42])) True False True of
      Inl e \<Rightarrow> False
    | Inr (h', out) \<Rightarrow>
        buf_bytes h' (snd (buf_from empty_heap [0x41, 0x42])) = [0x41, 0x42]
        \<and> buf_bytes (fst (buf_from empty_heap [0x41, 0x42]))
            (snd (buf_from empty_heap [0x41, 0x42])) = [0x41, 0x42])
   \<and> (case socket_on_data (\<lambda>_. 7) (fst (buf_from empty_heap [0x89, 0x00])) example_open
             (snd (buf_from empty_heap [0x89, 0x00])) of
        None \<Rightarrow> False
      | Some (e, h', ws') \<Rightarrow>
          e = None
          \<and> emitted ws' = [Ev_upgrade (example_response None), Ev_open, Ev_ping (Some [])]
          \<and> wire_payload_bytes (fst (buf_from empty_heap [0x89, 0x00]))
              (snd (buf_from empty_heap [0x89, 0x00])) = [])"
proof -
  let ?ys = "[0x41, 0x42] :: byte list"
  let ?h = "fst (buf_from empty_heap ?ys)"
  let ?pl = "snd (buf_from empty_heap ?ys)"
  have a: "base ?pl < fresh ?h" "len ?pl < 2 ^ 64"
    by (simp_all add: buf_from_facts(1,4,5))
  obtain h' out where f: "frame (\<lambda>_. 0) ?h 9 ?pl True False True = Inr (h', out)"
    "buf_bytes h' ?pl = xor_mask (map (\<lambda>_. 0) [0..<4]) (buf_bytes ?h ?pl)"
    using frame_masked_bytes [OF a, of "\<lambda>_. 0" 9 True False] by blast
  have "xor_mask (map (\<lambda>_. 0) [0..<4]) (buf_bytes ?h ?pl) = buf_bytes ?h ?pl"
    by (rule xor_mask_zero) simp
  then have one: "buf_bytes h' ?pl = ?ys" "buf_bytes ?h ?pl = ?ys"
    using f(2) by (simp_all add: buf_from_facts(2))
  let ?xs = "[0x89, 0x00] :: byte list"
  let ?g = "fst (buf_from empty_heap ?xs)"
  let ?d = "snd (buf_from empty_heap ?xs)"
  have w: "wire_opcode ?g ?d = 9" "wire_fin ?g ?d" "wire_len7 ?g ?d \<le> 125"
    by (simp_all add: wire_buf_from)
  have p: "wire_length ?g ?d = 0" "complete_frame ?g ?d"
    "wire_payload_bytes ?g ?d = take 0 (drop 2 ?xs)"
    using wire_payload_buf_from_short [of ?xs 0 empty_heap] by simp_all
  have b: "base ?d < fresh ?g"
    by (simp add: buf_from_facts(4,5))
  have s: "state example_open \<noteq> CONNECTING"
    by (simp add: example_open_fields)
  obtain h2 ws' where r: "socket_on_data (\<lambda>_. 7) ?g example_open ?d = Some (None, h2, ws')"
    "emitted ws' = emitted example_open
          @ [Ev_ping (Some (xor_mask (map (\<lambda>_. 7) [0..<4]) (wire_payload_bytes ?g ?d)))]"
    using ping_dispatch [OF p(2) w b s, of "\<lambda>_. 7"] by blast
  have "xor_mask (map (\<lambda>_. 7) [0..<4]) [] = ([] :: byte list)"
    by (simp add: xor_mask_def)
  then have two: "emitted ws' = [Ev_upgrade (example_response None), Ev_open, Ev_ping (Some [])]"
    using r(2) p(3) by (simp add: example_open_fields)
  show ?thesis
    using f(1) one r(1) two p(3) by simp
qed

end
